theory Spec2Isabelle
  imports Main "HOL-Library.AList" "HOL-Library.Multiset"
begin

section \<open>Reflected types\<close>

text \<open>
  The registry and the middleware validation inspect Go types through package reflect.
  Only three things are ever asked of a type: its kind (is it a pointer, is it a func),
  the element type of a pointer, the parameter and result lists of a func, and its name.
  Type identity (\<open>!=\<close> on \<open>reflect.Type\<close>) is equality of the terms below.

  \<^item> \<open>TNamed pkg n\<close>: a defined type whose kind is neither pointer nor func
    (a struct, an interface such as \<open>error\<close>, a basic type);
  \<^item> \<open>TLit l\<close>: an unnamed type literal of such a kind (\<open>struct {}\<close>, \<open>[]int\<close>);
  \<^item> \<open>TPtr t\<close>, \<open>TFunc ins outs\<close>: pointer and func literals;
  \<^item> \<open>TDefPtr pkg n t\<close>, \<open>TDefFunc pkg n ins outs\<close>: defined types whose underlying
    type is a pointer or a func.
\<close>

datatype kind = Ptr | Func | OtherKind

datatype rtype =
    TNamed string string
  | TLit string
  | TPtr rtype
  | TFunc "rtype list" "rtype list"
  | TDefPtr string string rtype
  | TDefFunc string string "rtype list" "rtype list"

fun Kind :: "rtype \<Rightarrow> kind" where
  "Kind (TNamed p n) = OtherKind"
| "Kind (TLit l) = OtherKind"
| "Kind (TPtr t) = Ptr"
| "Kind (TFunc ins outs) = Func"
| "Kind (TDefPtr p n t) = Ptr"
| "Kind (TDefFunc p n ins outs) = Func"

text \<open>\<open>Type.Elem()\<close> panics on a type that has no element type: that is \<open>None\<close>.\<close>

fun Elem :: "rtype \<Rightarrow> rtype option" where
  "Elem (TPtr t) = Some t"
| "Elem (TDefPtr p n t) = Some t"
| "Elem t = None"

text \<open>\<open>Type.Name()\<close>: the name of a defined type, empty for a type literal.\<close>

fun TypeName :: "rtype \<Rightarrow> string" where
  "TypeName (TNamed p n) = n"
| "TypeName (TDefPtr p n t) = n"
| "TypeName (TDefFunc p n ins outs) = n"
| "TypeName t = []"

text \<open>
  Parameter and result types of a func type. Every use below is on a type of kind
  \<open>Func\<close> and at an index checked against \<open>NumIn\<close> or \<open>NumOut\<close> first.
\<close>

fun Ins :: "rtype \<Rightarrow> rtype list" where
  "Ins (TFunc ins outs) = ins"
| "Ins (TDefFunc p n ins outs) = ins"
| "Ins t = []"

fun Outs :: "rtype \<Rightarrow> rtype list" where
  "Outs (TFunc ins outs) = outs"
| "Outs (TDefFunc p n ins outs) = outs"
| "Outs t = []"

definition NumIn :: "rtype \<Rightarrow> nat" where
  "NumIn t = length (Ins t)"

definition NumOut :: "rtype \<Rightarrow> nat" where
  "NumOut t = length (Outs t)"

definition In :: "rtype \<Rightarrow> nat \<Rightarrow> rtype" where
  "In t i = Ins t ! i"

definition Out :: "rtype \<Rightarrow> nat \<Rightarrow> rtype" where
  "Out t i = Outs t ! i"

text \<open>\<open>reflect.TypeOf((*error)(nil)).Elem()\<close> and \<open>reflect.TypeOf((*http.Request)(nil)).Elem()\<close>.\<close>

definition errorType :: rtype where
  "errorType = TNamed [] ''error''"

definition httpRequestType :: rtype where
  "httpRequestType = TNamed ''net/http'' ''Request''"

section \<open>Errors and results\<close>

text \<open>
  Every \<open>fmt.Errorf\<close> of the package is a constructor carrying the value that is
  formatted into the message; \<open>ErrOther\<close> is an error produced by code outside the
  package (a hook, a service method, a codec), identified by its message.
\<close>

datatype error =
    ErrNilRcvr
  | ErrNoServiceName rtype
  | ErrNoSuitableMethods string
  | ErrAlreadyDefined string
  | ErrIllFormed string
  | ErrCantFindService string
  | ErrCantFindMethod string
  | ErrCtxNil
  | ErrCtxNotPointer
  | ErrMiddlewareNil
  | ErrMiddlewareNotFunc
  | ErrMiddlewareIllFormed
  | ErrOther string

text \<open>A call either returns or panics (a nil dereference inside package reflect or on a nil interface).\<close>

datatype 'a result = Return 'a | Panic

section \<open>The service registry (service.go)\<close>

text \<open>
  Values handed around by reflection (receivers, contexts, arguments, replies) are of an
  arbitrary type \<open>'v\<close>; everything a callable may read or change outside its
  parameters (receiver fields, globals, the request body) is the world \<open>'w\<close>.
  A method's \<open>Func\<close> is called with (receiver, ctx, args, reply), the last three being
  pointers: it returns its error together with the context and the reply as it left them.
\<close>

record ('v, 'w) rmethod =
  mName :: string
  mPkgPath :: string
  mType :: rtype
  mFunc :: "'v \<Rightarrow> 'v \<Rightarrow> 'v \<Rightarrow> 'v \<Rightarrow> 'w \<Rightarrow> error option \<times> 'v \<times> 'v \<times> 'w"

text \<open>
  A non-nil \<open>rcvr interface{}\<close>: its dynamic type, whether the value is a nil pointer,
  the value, and the method set of its type in the order of \<open>Type.Method(i)\<close>.
\<close>

record ('v, 'w) receiver =
  rv_type :: rtype
  rv_nil :: bool
  rv_value :: 'v
  rv_methods :: "('v, 'w) rmethod list"

text \<open>
  \<open>serviceMethod.service\<close> points back to the owning service; the two fields of the
  owner that never change and are read through it are kept in its place.
\<close>

record ('v, 'w) serviceMethod =
  sm_service_name :: string
  sm_service_rValue :: 'v
  sm_method :: "('v, 'w) rmethod"
  sm_argsType :: rtype
  sm_replyType :: rtype

record ('v, 'w) service =
  svc_name :: string
  svc_methods :: "(string \<times> ('v, 'w) serviceMethod) list"
  svc_rValue :: 'v

text \<open>
  Go maps are association lists updated with \<open>AList.update\<close> (one entry per key);
  the \<open>services\<close> map is nil until the first successful registration.
\<close>

record ('v, 'w) serviceMap =
  services :: "(string \<times> ('v, 'w) service) list option"

definition entries :: "('v, 'w) serviceMap \<Rightarrow> (string \<times> ('v, 'w) service) list" where
  "entries m = (case services m of None \<Rightarrow> [] | Some l \<Rightarrow> l)"

text \<open>
  Lines 43-52 of \<open>add\<close>: the explicit name, or else
  \<open>reflect.Indirect(s.rValue).Type().Name()\<close>. \<open>Indirect\<close> of a nil pointer is the
  zero Value, whose \<open>Type()\<close> panics.
\<close>

definition resolveName :: "('v, 'w) receiver \<Rightarrow> string \<Rightarrow> string result" where
  "resolveName r nm =
     (if length nm = 0 then
        (if Kind (rv_type r) \<noteq> Ptr then Return (TypeName (rv_type r))
         else if rv_nil r then Panic
         else (case Elem (rv_type r) of None \<Rightarrow> Panic | Some t \<Rightarrow> Return (TypeName t)))
      else Return nm)"

text \<open>The body of the loop over the receiver's methods (lines 60-102), one \<open>continue\<close> per test.\<close>

definition scanMethod ::
  "rtype \<Rightarrow> string \<Rightarrow> 'v \<Rightarrow> (string \<times> ('v, 'w) serviceMethod) list \<Rightarrow> ('v, 'w) rmethod
     \<Rightarrow> (string \<times> ('v, 'w) serviceMethod) list" where
  "scanMethod ctxType sname rv ms m =
     (if mPkgPath m \<noteq> [] then ms
      else if NumIn (mType m) \<noteq> 4 then ms
      else if Kind (In (mType m) 1) \<noteq> Ptr \<or> Elem (In (mType m) 1) \<noteq> Some ctxType then ms
      else let args = In (mType m) 2 in
        if Kind args \<noteq> Ptr then ms
        else let reply = In (mType m) 3 in
          if Kind reply \<noteq> Ptr then ms
          else if NumOut (mType m) \<noteq> 1 then ms
          else if Out (mType m) 0 \<noteq> errorType then ms
          else AList.update (mName m)
                 \<lparr> sm_service_name = sname, sm_service_rValue = rv, sm_method = m,
                   sm_argsType = the (Elem args), sm_replyType = the (Elem reply) \<rparr> ms)"

definition scanMethods ::
  "rtype \<Rightarrow> string \<Rightarrow> ('v, 'w) receiver \<Rightarrow> (string \<times> ('v, 'w) serviceMethod) list" where
  "scanMethods ctxType sname r =
     foldl (scanMethod ctxType sname (rv_value r)) [] (rv_methods r)"

text \<open>
  \<open>serviceMap.add\<close>. The result is the returned error (\<open>None\<close> is nil) and the registry
  afterwards.
\<close>

definition add ::
  "('v, 'w) serviceMap \<Rightarrow> ('v, 'w) receiver option \<Rightarrow> string \<Rightarrow> rtype
     \<Rightarrow> (error option \<times> ('v, 'w) serviceMap) result" where
  "add m rcvr nm ctxType =
     (case rcvr of
        None \<Rightarrow> Return (Some ErrNilRcvr, m)
      | Some r \<Rightarrow>
          (case resolveName r nm of
             Panic \<Rightarrow> Panic
           | Return sname \<Rightarrow>
               if sname = [] then Return (Some (ErrNoServiceName (rv_type r)), m)
               else
                 let s = \<lparr> svc_name = sname,
                           svc_methods = scanMethods ctxType sname r,
                           svc_rValue = rv_value r \<rparr>
                 in if length (svc_methods s) = 0
                    then Return (Some (ErrNoSuitableMethods sname), m)
                    else (case services m of
                            None \<Rightarrow>
                              Return (None, m\<lparr>services := Some (AList.update sname s [])\<rparr>)
                          | Some svcs \<Rightarrow>
                              if map_of svcs sname \<noteq> None
                              then Return (Some (ErrAlreadyDefined sname), m)
                              else Return (None,
                                     m\<lparr>services := Some (AList.update sname s svcs)\<rparr>))))"

text \<open>\<open>strings.Split(s, sep)\<close> for a one-byte separator: \<open>Split '''' c = ['''']\<close>.\<close>

fun Split :: "string \<Rightarrow> char \<Rightarrow> string list" where
  "Split [] c = [[]]"
| "Split (x # xs) c =
     (if x = c then [] # Split xs c
      else (x # hd (Split xs c)) # tl (Split xs c))"

text \<open>\<open>serviceMap.get\<close>: a lookup in a nil map, or of a missing key, yields nil.\<close>

definition get :: "('v, 'w) serviceMap \<Rightarrow> string \<Rightarrow> error + ('v, 'w) serviceMethod" where
  "get m method =
     (let parts = Split method (CHR ''.'') in
      if length parts \<noteq> 2 then Inl (ErrIllFormed method)
      else (case map_of (entries m) (parts ! 0) of
              None \<Rightarrow> Inl (ErrCantFindService method)
            | Some service \<Rightarrow>
                (case map_of (svc_methods service) (parts ! 1) of
                   None \<Rightarrow> Inl (ErrCantFindMethod method)
                 | Some serviceMethod \<Rightarrow> Inr serviceMethod)))"

text \<open>
  \<open>serviceMap.Map\<close>. Ranging over a Go map visits every entry once, in an order that is
  not specified: \<open>MapIn ss mo\<close> is the loop when the outer \<open>range\<close> yields the services
  \<open>ss\<close> and the inner \<open>range\<close> over the methods of \<open>s\<close> yields the names \<open>mo s\<close>.
  A missing key of \<open>ret\<close> reads as the nil slice.
\<close>

definition sliceAt :: "(string \<times> string list) list \<Rightarrow> string \<Rightarrow> string list" where
  "sliceAt ret k = (case map_of ret k of None \<Rightarrow> [] | Some l \<Rightarrow> l)"

definition MapService ::
  "(string \<times> string list) list \<Rightarrow> ('v, 'w) service \<Rightarrow> string list
     \<Rightarrow> (string \<times> string list) list" where
  "MapService ret s names =
     foldl (\<lambda>ret method. AList.update (svc_name s) (sliceAt ret (svc_name s) @ [method]) ret)
       (AList.update (svc_name s) [] ret) names"

definition MapIn ::
  "('v, 'w) service list \<Rightarrow> (('v, 'w) service \<Rightarrow> string list) \<Rightarrow> (string \<times> string list) list" where
  "MapIn ss mo = foldl (\<lambda>ret s. MapService ret s (mo s)) [] ss"

text \<open>Every value \<open>Map\<close> can return, and the one for the order of insertion.\<close>

definition MapResults :: "('v, 'w) serviceMap \<Rightarrow> (string \<times> string list) list set" where
  "MapResults m =
     {MapIn ss mo | ss mo.
        mset ss = mset (map snd (entries m)) \<and>
        (\<forall>s \<in> set ss. mset (mo s) = mset (map fst (svc_methods s)))}"

definition Map :: "('v, 'w) serviceMap \<Rightarrow> (string \<times> string list) list" where
  "Map m = MapIn (map snd (entries m)) (\<lambda>s. map fst (svc_methods s))"

text \<open>A sequence of registrations on one registry, every one of them successful.\<close>

fun registerAll ::
  "('v, 'w) serviceMap \<Rightarrow> (('v, 'w) receiver option \<times> string \<times> rtype) list
     \<Rightarrow> ('v, 'w) serviceMap option" where
  "registerAll m [] = Some m"
| "registerAll m ((rcvr, nm, ctxType) # rest) =
     (case add m rcvr nm ctxType of
        Return (None, m') \<Rightarrow> registerAll m' rest
      | _ \<Rightarrow> None)"

text \<open>
  The signature a method must have to be registered, as one predicate: exported, four
  inputs (receiver, pointer to the context type, pointer, pointer), one output of type
  \<open>error\<close>.
\<close>

definition qualifies :: "rtype \<Rightarrow> ('v, 'w) rmethod \<Rightarrow> bool" where
  "qualifies ctxType m =
     (mPkgPath m = [] \<and>
      (case Ins (mType m) of
         [rcv, c, a, rp] \<Rightarrow>
           Kind c = Ptr \<and> Elem c = Some ctxType \<and> Kind a = Ptr \<and> Kind rp = Ptr
       | _ \<Rightarrow> False) \<and>
      Outs (mType m) = [errorType])"

text \<open>The descriptor \<open>add\<close> stores for a qualifying method of a receiver registered as \<open>sname\<close>.\<close>

definition descriptor :: "string \<Rightarrow> 'v \<Rightarrow> ('v, 'w) rmethod \<Rightarrow> ('v, 'w) serviceMethod" where
  "descriptor sname rv m =
     \<lparr> sm_service_name = sname, sm_service_rValue = rv, sm_method = m,
       sm_argsType = the (Elem (In (mType m) 2)), sm_replyType = the (Elem (In (mType m) 3)) \<rparr>"

text \<open>
  Two invariants of a registry. Go identifiers are not empty, so neither a registered
  service name (\<open>add\<close> refuses the empty one) nor a method name is; and every service is
  stored under its own name, each key once.
\<close>

definition wellNamed :: "('v, 'w) serviceMap \<Rightarrow> bool" where
  "wellNamed m =
     list_all (\<lambda>(k, s). k \<noteq> [] \<and> list_all (\<lambda>(n, d). n \<noteq> []) (svc_methods s)) (entries m)"

definition regInv :: "('v, 'w) serviceMap \<Rightarrow> bool" where
  "regInv m =
     (distinct (map fst (entries m)) \<and>
      list_all (\<lambda>(k, s). svc_name s = k \<and> distinct (map fst (svc_methods s))) (entries m))"

section \<open>The server (server.go)\<close>

subsection \<open>What the Go runtime and library supply\<close>

text \<open>
  Three behaviours are not defined in this repository and are taken as given:
  the capacity \<open>append\<close> chooses when it must allocate (old capacity, required length),
  \<open>strings.ToLower\<close> on a string that is not pure ASCII (Unicode case mapping), and the
  zero value of a type, which is what \<open>reflect.New\<close> points to.
\<close>

record 'v runtime =
  growslice :: "nat \<Rightarrow> nat \<Rightarrow> nat"
  unicodeToLower :: "string \<Rightarrow> string"
  zeroValue :: "rtype \<Rightarrow> 'v"

text \<open>
  \<open>strings.ToLower\<close>: a string of bytes below \<open>utf8.RuneSelf\<close> (128) has its letters
  \<open>A\<close> to \<open>Z\<close> moved by \<open>'a' - 'A'\<close>; any other string goes through the Unicode mapping.
\<close>

definition lowerByte :: "char \<Rightarrow> char" where
  "lowerByte c =
     (let n = (of_char c :: nat) in if 65 \<le> n \<and> n \<le> 90 then char_of (n + 32) else c)"

definition ToLower :: "'v runtime \<Rightarrow> string \<Rightarrow> string" where
  "ToLower rt s =
     (if list_all (\<lambda>c. (of_char c :: nat) < 128) s then map lowerByte s
      else unicodeToLower rt s)"

text \<open>\<open>strings.Index(s, sep)\<close> for a one-byte separator: the first position of it, or \<open>-1\<close>.\<close>

fun Index :: "string \<Rightarrow> char \<Rightarrow> int" where
  "Index [] c = - 1"
| "Index (x # xs) c =
     (if x = c then 0 else (let i = Index xs c in if i = - 1 then - 1 else i + 1))"

subsection \<open>Slices\<close>

text \<open>
  A slice is a window (length, capacity) on a backing array. The arrays live in a store,
  addressed by their position in it; of each array the store keeps the cells written so
  far. The nil slice has capacity 0 and no array. \<open>append\<close> writes in place when the
  capacity allows, into the cell just after the window, whoever else shares the array,
  and otherwise copies the window into a new array.
\<close>

record slice =
  sl_array :: nat
  sl_len :: nat
  sl_cap :: nat

definition nilSlice :: slice where
  "nilSlice = \<lparr> sl_array = 0, sl_len = 0, sl_cap = 0 \<rparr>"

definition arrayAt :: "'a list list \<Rightarrow> nat \<Rightarrow> 'a list" where
  "arrayAt arrays a = (if a < length arrays then arrays ! a else [])"

definition sliceView :: "'a list list \<Rightarrow> slice \<Rightarrow> 'a list" where
  "sliceView arrays sl = take (sl_len sl) (arrayAt arrays (sl_array sl))"

definition append1 :: "'v runtime \<Rightarrow> 'a list list \<Rightarrow> slice \<Rightarrow> 'a \<Rightarrow> 'a list list \<times> slice" where
  "append1 rt arrays sl v =
     (if sl_len sl < sl_cap sl then
        (arrays[sl_array sl :=
           take (sl_len sl) (arrayAt arrays (sl_array sl)) @ [v] @
           drop (Suc (sl_len sl)) (arrayAt arrays (sl_array sl))],
         sl\<lparr>sl_len := Suc (sl_len sl)\<rparr>)
      else
        (arrays @ [sliceView arrays sl @ [v]],
         \<lparr> sl_array = length arrays, sl_len = Suc (sl_len sl),
           sl_cap = max (Suc (sl_len sl)) (growslice rt (sl_cap sl) (Suc (sl_len sl))) \<rparr>))"

subsection \<open>Requests, hooks and codecs\<close>

text \<open>
  Of the transport request the server reads \<open>r.Method\<close> and
  \<open>r.Header.Get("Content-Type")\<close> (empty when the header is absent); the rest of it
  belongs to the world.
\<close>

record request =
  r_Method :: string
  r_ContentType :: string

text \<open>
  A non-nil \<open>fn interface{}\<close>: a label, its dynamic type, and what calling it does to the
  context it is given a pointer to and to the world (\<open>None\<close> when the value cannot be
  called: not a func, or a nil func). A \<open>reflect.Value\<close> of it is \<open>Some\<close> of it, the zero
  \<open>reflect.Value\<close> is \<open>None\<close>.
\<close>

record ('v, 'w) fnval =
  fn_id :: nat
  fn_type :: rtype
  fn_call :: "(request \<Rightarrow> 'v \<Rightarrow> 'w \<Rightarrow> error option \<times> 'v \<times> 'w) option"

text \<open>
  The codec contract of \<open>codec.go\<close>. \<open>ReadRequest\<close> fills the instance it is given;
  \<open>WriteResponse\<close> and \<open>WriteError\<close> are the last thing a dispatch does and appear as
  its response.
\<close>

record ('v, 'w) codecRequest =
  crMethod :: "'w \<Rightarrow> (string \<times> error option) \<times> 'w"
  crReadRequest :: "'v \<Rightarrow> 'w \<Rightarrow> error option \<times> 'v \<times> 'w"

record ('v, 'w) codec =
  codec_id :: nat
  NewRequest :: "request \<Rightarrow> 'w \<Rightarrow> ('v, 'w) codecRequest \<times> 'w"

text \<open>
  What a dispatch writes: the package's plain-text \<open>WriteError\<close> (status, message), the
  adapter's \<open>WriteError\<close> (codec, status, error), the adapter's \<open>WriteResponse\<close> (codec,
  reply) after the header \<open>x-content-type-options: nosniff\<close> is set, or nothing because
  it panicked.
\<close>

datatype 'v response =
    WriteError nat string
  | CodecWriteError nat nat error
  | CodecWriteResponse nat 'v
  | Panicked

text \<open>The calls a dispatch makes to code outside the package, with the instances it passes.\<close>

datatype 'v event =
    NewRequestCalled nat
  | MethodCalled
  | BeforeCalled nat 'v
  | ReadRequestCalled 'v
  | ServiceCalled string string 'v 'v 'v 'v
  | AfterCalled nat 'v

subsection \<open>Construction and registration\<close>

text \<open>
  The codec table maps a key to an interface value, which may be nil (\<open>None\<close>).
  The two hook lists are slices of \<open>reflect.Value\<close> over the store \<open>srv_arrays\<close>.
\<close>

record ('v, 'w) Server =
  srv_codecs :: "(string \<times> ('v, 'w) codec option) list"
  srv_services :: "('v, 'w) serviceMap"
  srv_ctxType :: rtype
  srv_beforeFns :: slice
  srv_afterFns :: slice
  srv_arrays :: "('v, 'w) fnval option list list"

definition beforeFns :: "('v, 'w) Server \<Rightarrow> ('v, 'w) fnval option list" where
  "beforeFns s = sliceView (srv_arrays s) (srv_beforeFns s)"

definition afterFns :: "('v, 'w) Server \<Rightarrow> ('v, 'w) fnval option list" where
  "afterFns s = sliceView (srv_arrays s) (srv_afterFns s)"

text \<open>\<open>NewServer\<close>, given the dynamic type of \<open>ctx\<close> (\<open>None\<close> for a nil interface).\<close>

definition NewServer :: "rtype option \<Rightarrow> error + ('v, 'w) Server" where
  "NewServer ctx =
     (case ctx of
        None \<Rightarrow> Inl ErrCtxNil
      | Some ctxType \<Rightarrow>
          if Kind ctxType \<noteq> Ptr then Inl ErrCtxNotPointer
          else Inr \<lparr> srv_codecs = [], srv_services = \<lparr>services = None\<rparr>,
                     srv_ctxType = the (Elem ctxType),
                     srv_beforeFns = nilSlice, srv_afterFns = nilSlice, srv_arrays = [] \<rparr>)"

definition validCtxFunc :: "('v, 'w) fnval option \<Rightarrow> rtype \<Rightarrow> error option" where
  "validCtxFunc fn ctxType =
     (case fn of
        None \<Rightarrow> Some ErrMiddlewareNil
      | Some f \<Rightarrow>
          if Kind (fn_type f) \<noteq> Func then Some ErrMiddlewareNotFunc
          else if NumIn (fn_type f) \<noteq> 2 then Some ErrMiddlewareIllFormed
          else if NumOut (fn_type f) \<noteq> 1 then Some ErrMiddlewareIllFormed
          else if Kind (In (fn_type f) 0) \<noteq> Ptr \<or> Elem (In (fn_type f) 0) \<noteq> Some httpRequestType
            then Some ErrMiddlewareIllFormed
          else if Kind (In (fn_type f) 1) \<noteq> Ptr \<or> Elem (In (fn_type f) 1) \<noteq> Some ctxType
            then Some ErrMiddlewareIllFormed
          else if Out (fn_type f) 0 \<noteq> errorType then Some ErrMiddlewareIllFormed
          else None)"

definition RegisterBeforeFunc ::
  "'v runtime \<Rightarrow> ('v, 'w) Server \<Rightarrow> ('v, 'w) fnval option \<Rightarrow> error option \<times> ('v, 'w) Server" where
  "RegisterBeforeFunc rt s fn =
     (case validCtxFunc fn (srv_ctxType s) of
        Some err \<Rightarrow> (Some err, s)
      | None \<Rightarrow>
          (case append1 rt (srv_arrays s) (srv_beforeFns s) fn of
             (arrays, sl) \<Rightarrow> (None, s\<lparr>srv_arrays := arrays, srv_beforeFns := sl\<rparr>)))"

text \<open>Line 306 appends to \<open>s.beforeFns\<close> and stores the result in \<open>s.afterFns\<close>.\<close>

definition RegisterAfterFunc ::
  "'v runtime \<Rightarrow> ('v, 'w) Server \<Rightarrow> ('v, 'w) fnval option \<Rightarrow> error option \<times> ('v, 'w) Server" where
  "RegisterAfterFunc rt s fn =
     (case validCtxFunc fn (srv_ctxType s) of
        Some err \<Rightarrow> (Some err, s)
      | None \<Rightarrow>
          (case append1 rt (srv_arrays s) (srv_beforeFns s) fn of
             (arrays, sl) \<Rightarrow> (None, s\<lparr>srv_arrays := arrays, srv_afterFns := sl\<rparr>)))"

definition RegisterCodec ::
  "'v runtime \<Rightarrow> ('v, 'w) Server \<Rightarrow> ('v, 'w) codec option \<Rightarrow> string \<Rightarrow> ('v, 'w) Server" where
  "RegisterCodec rt s codec contentType =
     s\<lparr>srv_codecs := AList.update (ToLower rt contentType) codec (srv_codecs s)\<rparr>"

definition RegisterService ::
  "('v, 'w) Server \<Rightarrow> ('v, 'w) receiver option \<Rightarrow> string \<Rightarrow> (error option \<times> ('v, 'w) Server) result" where
  "RegisterService s receiver nm =
     (case add (srv_services s) receiver nm (srv_ctxType s) of
        Panic \<Rightarrow> Panic
      | Return (err, m) \<Rightarrow> Return (err, s\<lparr>srv_services := m\<rparr>))"

definition HasMethod :: "('v, 'w) Server \<Rightarrow> string \<Rightarrow> bool" where
  "HasMethod s nm = (case get (srv_services s) nm of Inl err \<Rightarrow> False | Inr m \<Rightarrow> True)"

definition ServiceMap :: "('v, 'w) Server \<Rightarrow> (string \<times> string list) list" where
  "ServiceMap s = Map (srv_services s)"

subsection \<open>Dispatch\<close>

text \<open>
  \<open>reflectFuncCall\<close> on a hook: calling the zero Value or a value that is not a
  callable func panics.
\<close>

definition reflectFuncCall ::
  "('v, 'w) fnval option \<Rightarrow> request \<Rightarrow> 'v \<Rightarrow> 'w \<Rightarrow> (error option \<times> 'v \<times> 'w) result" where
  "reflectFuncCall fn r ctx w =
     (case fn of
        None \<Rightarrow> Panic
      | Some f \<Rightarrow> (case fn_call f of None \<Rightarrow> Panic | Some call \<Rightarrow> Return (call r ctx w)))"

definition fnId :: "('v, 'w) fnval option \<Rightarrow> nat" where
  "fnId fn = (case fn of None \<Rightarrow> 0 | Some f \<Rightarrow> fn_id f)"

text \<open>
  The two loops over hooks (lines 404-409 and 433-438): each hook gets the request and
  the context as the previous one left it; the first error, or a panic, ends the loop.
  The result is the error (\<open>None\<close> when every hook returned nil), the context, the world
  and the calls made, \<open>ev\<close> telling the phase.
\<close>

fun runFns ::
  "(nat \<Rightarrow> 'v \<Rightarrow> 'v event) \<Rightarrow> request \<Rightarrow> ('v, 'w) fnval option list \<Rightarrow> 'v \<Rightarrow> 'w
     \<Rightarrow> error option result \<times> 'v \<times> 'w \<times> 'v event list" where
  "runFns ev r [] ctx w = (Return None, ctx, w, [])"
| "runFns ev r (fn # fns) ctx w =
     (case reflectFuncCall fn r ctx w of
        Panic \<Rightarrow> (Panic, ctx, w, [])
      | Return (Some err, ctx', w') \<Rightarrow> (Return (Some err), ctx', w', [ev (fnId fn) ctx])
      | Return (None, ctx', w') \<Rightarrow>
          (case runFns ev r fns ctx' w' of
             (res, ctx'', w'', es) \<Rightarrow> (res, ctx'', w'', ev (fnId fn) ctx # es)))"

text \<open>Lines 368-372: the header value up to the first semicolon.\<close>

definition contentTypeOf :: "request \<Rightarrow> string" where
  "contentTypeOf r =
     (let contentType = r_ContentType r;
          idx = Index contentType (CHR '';'')
      in if idx \<noteq> - 1 then take (nat idx) contentType else contentType)"

text \<open>
  Lines 373-383: the choice of the codec. With one entry in the table the \<open>range\<close> loop
  leaves that entry's value in \<open>codec\<close>, nil or not; a missing key and a nil value both
  read as nil and are answered with 415.
\<close>

definition selectCodec ::
  "'v runtime \<Rightarrow> ('v, 'w) Server \<Rightarrow> string \<Rightarrow> 'v response + ('v, 'w) codec option" where
  "selectCodec rt s contentType =
     (if contentType = [] \<and> length (srv_codecs s) = 1
      then Inr (foldl (\<lambda>codec (k, c). c) None (srv_codecs s))
      else (case map_of (srv_codecs s) (ToLower rt contentType) of
              Some (Some codec) \<Rightarrow> Inr (Some codec)
            | _ \<Rightarrow> Inl (WriteError 415 (''rpc: unrecognized Content-Type: '' @ contentType))))"

text \<open>Lines 385-441: the dispatch once the codec is chosen.\<close>

definition serveWith ::
  "'v runtime \<Rightarrow> ('v, 'w) Server \<Rightarrow> ('v, 'w) codec \<Rightarrow> request \<Rightarrow> 'w
     \<Rightarrow> 'v response \<times> 'v event list \<times> 'w" where
  "serveWith rt s codec r w =
     (case NewRequest codec r w of (codecReq, w1) \<Rightarrow>
      (case crMethod codecReq w1 of ((method, errMethod), w2) \<Rightarrow>
       (let t0 = [NewRequestCalled (codec_id codec), MethodCalled] in
        case errMethod of
          Some err \<Rightarrow> (CodecWriteError (codec_id codec) 400 err, t0, w2)
        | None \<Rightarrow>
           (case get (srv_services s) method of
              Inl errGet \<Rightarrow> (CodecWriteError (codec_id codec) 400 errGet, t0, w2)
            | Inr methodSpec \<Rightarrow>
               (let ctx = zeroValue rt (srv_ctxType s) in
                case runFns BeforeCalled r (beforeFns s) ctx w2 of
                  (Panic, ctx1, w3, t1) \<Rightarrow> (Panicked, t0 @ t1, w3)
                | (Return (Some err), ctx1, w3, t1) \<Rightarrow>
                    (CodecWriteError (codec_id codec) 400 err, t0 @ t1, w3)
                | (Return None, ctx1, w3, t1) \<Rightarrow>
                   (let args = zeroValue rt (sm_argsType methodSpec) in
                    case crReadRequest codecReq args w3 of
                      (Some errRead, args1, w4) \<Rightarrow>
                        (CodecWriteError (codec_id codec) 400 errRead,
                         t0 @ t1 @ [ReadRequestCalled args], w4)
                    | (None, args1, w4) \<Rightarrow>
                       (let reply = zeroValue rt (sm_replyType methodSpec);
                            t2 = t0 @ t1 @ [ReadRequestCalled args,
                                   ServiceCalled (sm_service_name methodSpec)
                                     (mName (sm_method methodSpec))
                                     (sm_service_rValue methodSpec) ctx1 args1 reply]
                        in case mFunc (sm_method methodSpec) (sm_service_rValue methodSpec)
                                  ctx1 args1 reply w4 of
                             (Some err, ctx2, reply1, w5) \<Rightarrow>
                               (CodecWriteError (codec_id codec) 400 err, t2, w5)
                           | (None, ctx2, reply1, w5) \<Rightarrow>
                              (case runFns AfterCalled r (afterFns s) ctx2 w5 of
                                 (Panic, ctx3, w6, t3) \<Rightarrow> (Panicked, t2 @ t3, w6)
                               | (Return (Some err), ctx3, w6, t3) \<Rightarrow>
                                   (CodecWriteError (codec_id codec) 400 err, t2 @ t3, w6)
                               | (Return None, ctx3, w6, t3) \<Rightarrow>
                                   (CodecWriteResponse (codec_id codec) reply1,
                                    t2 @ t3, w6)))))))))"

text \<open>\<open>Server.ServeHTTP\<close>: the response, the calls made, and the world afterwards.\<close>

definition ServeHTTP ::
  "'v runtime \<Rightarrow> ('v, 'w) Server \<Rightarrow> request \<Rightarrow> 'w \<Rightarrow> 'v response \<times> 'v event list \<times> 'w" where
  "ServeHTTP rt s r w =
     (if r_Method r \<noteq> ''POST''
      then (WriteError 405 (''rpc: POST method required, received '' @ r_Method r), [], w)
      else (case selectCodec rt s (contentTypeOf r) of
              Inl resp \<Rightarrow> (resp, [], w)
            | Inr None \<Rightarrow> (Panicked, [], w)
            | Inr (Some codec) \<Rightarrow> serveWith rt s codec r w))"


text \<open>Readings of a trace: the hooks called in each phase, and the contexts handed out.\<close>

fun beforeIds :: "'v event list \<Rightarrow> nat list" where
  "beforeIds [] = []"
| "beforeIds (BeforeCalled i c # es) = i # beforeIds es"
| "beforeIds (e # es) = beforeIds es"

fun isBefore :: "'v event \<Rightarrow> bool" where
  "isBefore (BeforeCalled i c) = True"
| "isBefore e = False"

fun ctxSeen :: "'v event \<Rightarrow> 'v option" where
  "ctxSeen (BeforeCalled i c) = Some c"
| "ctxSeen (ServiceCalled sn mn rv c a rp) = Some c"
| "ctxSeen (AfterCalled i c) = Some c"
| "ctxSeen e = None"

text \<open>
  A slice is well formed in a store when its window lies within its capacity and within
  the cells written of its array, which exists unless the capacity is 0. The server's
  before list is kept so by every registration.
\<close>

definition sliceOk :: "'a list list \<Rightarrow> slice \<Rightarrow> bool" where
  "sliceOk arrays sl =
     (sl_len sl \<le> sl_cap sl \<and> sl_len sl \<le> length (arrayAt arrays (sl_array sl)) \<and>
      (0 < sl_cap sl \<longrightarrow> sl_array sl < length arrays))"

definition hooksOk :: "('v, 'w) Server \<Rightarrow> bool" where
  "hooksOk s = sliceOk (srv_arrays s) (srv_beforeFns s)"

section \<open>Concrete inputs\<close>

text \<open>
  The receiver of \<open>service_test.go\<close> (\<open>TestService\<close> with its method \<open>Hello\<close>), given one
  more method whose argument is not a pointer, and the registries the test builds.
\<close>

definition exContext :: rtype where
  "exContext = TNamed ''rpc'' ''Context''"

definition exHello :: "(nat, unit) rmethod" where
  "exHello =
     \<lparr> mName = ''Hello'', mPkgPath = [],
       mType = TFunc [TPtr (TNamed ''rpc'' ''TestService''), TPtr exContext,
                      TPtr (TLit ''struct {}''), TPtr (TLit ''struct {}'')] [errorType],
       mFunc = (\<lambda>rcv ctx args reply w. (None, ctx, reply, w)) \<rparr>"

definition exBye :: "(nat, unit) rmethod" where
  "exBye =
     \<lparr> mName = ''Bye'', mPkgPath = [],
       mType = TFunc [TPtr (TNamed ''rpc'' ''TestService''), TPtr exContext,
                      TLit ''struct {}'', TPtr (TLit ''struct {}'')] [errorType],
       mFunc = (\<lambda>rcv ctx args reply w. (None, ctx, reply, w)) \<rparr>"

definition exTestService :: "(nat, unit) receiver" where
  "exTestService =
     \<lparr> rv_type = TPtr (TNamed ''rpc'' ''TestService''), rv_nil = False, rv_value = 0,
       rv_methods = [exBye, exHello] \<rparr>"

definition exRegistry :: "(nat, unit) serviceMap" where
  "exRegistry =
     \<lparr> services = Some [(''TestService'',
         \<lparr> svc_name = ''TestService'',
           svc_methods = [(''Hello'', descriptor ''TestService'' 0 exHello)],
           svc_rValue = 0 \<rparr>)] \<rparr>"

definition exRegistry2 :: "(nat, unit) serviceMap" where
  "exRegistry2 =
     \<lparr> services = Some [(''TestService'',
         \<lparr> svc_name = ''TestService'',
           svc_methods = [(''Hello'', descriptor ''TestService'' 0 exHello)],
           svc_rValue = 0 \<rparr>),
        (''Second'',
         \<lparr> svc_name = ''Second'',
           svc_methods = [(''Hello'', descriptor ''Second'' 0 exHello)],
           svc_rValue = 0 \<rparr>)] \<rparr>"

text \<open>
  For the server: values are numbers with zero value 0 and there is no world to speak
  of; \<open>append\<close> doubles a capacity it has to grow. Both codecs hand out an adapter that
  names the method \<open>TestService.Hello\<close> and decodes the argument 7. \<open>exNewServer\<close> is the
  server \<open>NewServer(new(Context))\<close> returns and \<open>exServer0\<close> the same after
  \<open>RegisterService(new(TestService), "")\<close>; the other servers are built from it by the
  registration functions.
\<close>

definition exRuntime :: "nat runtime" where
  "exRuntime =
     \<lparr> growslice = (\<lambda>old n. if old = 0 then n else 2 * old),
       unicodeToLower = (\<lambda>s. s),
       zeroValue = (\<lambda>t. 0) \<rparr>"

definition exAdapter :: "(nat, unit) codecRequest" where
  "exAdapter =
     \<lparr> crMethod = (\<lambda>w. ((''TestService.Hello'', None), w)),
       crReadRequest = (\<lambda>args w. (None, 7, w)) \<rparr>"

definition exJson :: "(nat, unit) codec" where
  "exJson = \<lparr> codec_id = 1, NewRequest = (\<lambda>r w. (exAdapter, w)) \<rparr>"

definition exXml :: "(nat, unit) codec" where
  "exXml = \<lparr> codec_id = 2, NewRequest = (\<lambda>r w. (exAdapter, w)) \<rparr>"

definition exNewServer :: "(nat, unit) Server" where
  "exNewServer =
     \<lparr> srv_codecs = [], srv_services = \<lparr>services = None\<rparr>, srv_ctxType = exContext,
       srv_beforeFns = nilSlice, srv_afterFns = nilSlice, srv_arrays = [] \<rparr>"

definition exServer0 :: "(nat, unit) Server" where
  "exServer0 =
     \<lparr> srv_codecs = [], srv_services = exRegistry, srv_ctxType = exContext,
       srv_beforeFns = nilSlice, srv_afterFns = nilSlice, srv_arrays = [] \<rparr>"

definition exServerOne :: "(nat, unit) Server" where
  "exServerOne = RegisterCodec exRuntime exServer0 (Some exJson) ''application/json''"

definition exServerTwo :: "(nat, unit) Server" where
  "exServerTwo = RegisterCodec exRuntime exServerOne (Some exXml) []"

definition exServerTwoKeyed :: "(nat, unit) Server" where
  "exServerTwoKeyed = RegisterCodec exRuntime exServerOne (Some exXml) ''text/xml''"

definition exPost :: request where
  "exPost = \<lparr> r_Method = ''POST'', r_ContentType = [] \<rparr>"

text \<open>
  Four hooks of the type \<open>func(*http.Request, *Context) error\<close>: one sets the context to
  5, one returns an error, two do nothing.
\<close>

definition hookType :: rtype where
  "hookType = TFunc [TPtr httpRequestType, TPtr exContext] [errorType]"

definition exFetchAuthToken :: "(nat, unit) fnval" where
  "exFetchAuthToken =
     \<lparr> fn_id = 1, fn_type = hookType, fn_call = Some (\<lambda>r ctx w. (None, 5, w)) \<rparr>"

definition exDeny :: "(nat, unit) fnval" where
  "exDeny =
     \<lparr> fn_id = 2, fn_type = hookType,
       fn_call = Some (\<lambda>r ctx w. (Some (ErrOther ''denied''), ctx, w)) \<rparr>"

definition exLogger :: "(nat, unit) fnval" where
  "exLogger =
     \<lparr> fn_id = 3, fn_type = hookType, fn_call = Some (\<lambda>r ctx w. (None, ctx, w)) \<rparr>"

definition exAudit :: "(nat, unit) fnval" where
  "exAudit =
     \<lparr> fn_id = 4, fn_type = hookType, fn_call = Some (\<lambda>r ctx w. (None, ctx, w)) \<rparr>"

definition exServerB1 :: "(nat, unit) Server" where
  "exServerB1 = snd (RegisterBeforeFunc exRuntime exServerOne (Some exFetchAuthToken))"

definition exServerB2 :: "(nat, unit) Server" where
  "exServerB2 = snd (RegisterBeforeFunc exRuntime exServerB1 (Some exDeny))"

definition exServerB3 :: "(nat, unit) Server" where
  "exServerB3 = snd (RegisterBeforeFunc exRuntime exServerB2 (Some exLogger))"

definition exServerA1 :: "(nat, unit) Server" where
  "exServerA1 = snd (RegisterAfterFunc exRuntime exServerOne (Some exLogger))"

definition exServerA2 :: "(nat, unit) Server" where
  "exServerA2 = snd (RegisterAfterFunc exRuntime exServerA1 (Some exAudit))"

definition exServerB1A :: "(nat, unit) Server" where
  "exServerB1A = snd (RegisterAfterFunc exRuntime exServerB1 (Some exLogger))"

definition exServerB3A :: "(nat, unit) Server" where
  "exServerB3A = snd (RegisterAfterFunc exRuntime exServerB3 (Some exAudit))"

definition exServerB3AB :: "(nat, unit) Server" where
  "exServerB3AB = snd (RegisterBeforeFunc exRuntime exServerB3A (Some exLogger))"

section \<open>Properties of the registry\<close>

lemma Split_ne: "Split s c \<noteq> []"
  by (induction s) auto

lemma Split_length: "length (Split s c) = Suc (length (filter (\<lambda>x. x = c) s))"
  by (induction s) (auto simp: Split_ne)

lemma Split_none: "c \<notin> set s \<Longrightarrow> Split s c = [s]"
  by (induction s) auto

lemma Split_first: "c \<notin> set a \<Longrightarrow> Split (a @ c # b) c = a # Split b c"
  by (induction a) auto

lemma Split_two:
  "length (Split s c) = 2 \<longleftrightarrow> (\<exists>a b. s = a @ c # b \<and> c \<notin> set a \<and> c \<notin> set b)"
proof
  assume "length (Split s c) = 2"
  then have one: "length (filter (\<lambda>x. x = c) s) = 1"
    by (simp add: Split_length)
  then have "c \<in> set s"
    by (metis (mono_tags, lifting) filter_False length_0_conv zero_neq_one)
  then obtain a b where s: "s = a @ c # b" and a: "c \<notin> set a"
    by (meson split_list_first)
  from a have "filter (\<lambda>x. x = c) a = []" by (auto simp: filter_empty_conv)
  with one s have "filter (\<lambda>x. x = c) b = []" by simp
  then have "c \<notin> set b" by (auto simp: filter_empty_conv)
  with s a show "\<exists>a b. s = a @ c # b \<and> c \<notin> set a \<and> c \<notin> set b" by blast
next
  assume "\<exists>a b. s = a @ c # b \<and> c \<notin> set a \<and> c \<notin> set b"
  then show "length (Split s c) = 2"
    by (auto simp: Split_first Split_none)
qed

lemma Split_parts:
  "c \<notin> set a \<Longrightarrow> c \<notin> set b \<Longrightarrow> Split (a @ c # b) c = [a, b]"
  by (simp add: Split_first Split_none)

lemma scanMethod_cases:
  "scanMethod c sn rv ms m = (if qualifies c m then AList.update (mName m) (descriptor sn rv m) ms else ms)"
  unfolding scanMethod_def qualifies_def descriptor_def NumIn_def NumOut_def In_def Out_def Let_def
  apply (cases "Ins (mType m)"; cases "Outs (mType m)")
  apply (auto split: list.splits simp: )
  done

lemma scanMethod_yes:
  "qualifies c m \<Longrightarrow> scanMethod c sn rv ms m = AList.update (mName m) (descriptor sn rv m) ms"
  by (simp add: scanMethod_cases)

lemma scanMethod_no: "\<not> qualifies c m \<Longrightarrow> scanMethod c sn rv ms m = ms"
  by (simp add: scanMethod_cases)

lemma foldl_scan_keys:
  "fst ` set (foldl (scanMethod c sn rv) ms xs) = fst ` set ms \<union> mName ` {x \<in> set xs. qualifies c x}"
proof (induction xs arbitrary: ms)
  case Nil
  then show ?case by simp
next
  case (Cons y ys)
  show ?case
  proof (cases "qualifies c y")
    case True
    have "{x \<in> set (y # ys). qualifies c x} = insert y {x \<in> set ys. qualifies c x}"
      using True by auto
    then show ?thesis
      using True by (simp add: Cons.IH scanMethod_yes dom_update)
  next
    case False
    have "{x \<in> set (y # ys). qualifies c x} = {x \<in> set ys. qualifies c x}"
      using False by auto
    then show ?thesis
      using False by (simp add: Cons.IH scanMethod_no)
  qed
qed

lemma foldl_scan_distinct:
  "distinct (map fst ms) \<Longrightarrow> distinct (map fst (foldl (scanMethod c sn rv) ms xs))"
proof (induction xs arbitrary: ms)
  case Nil
  then show ?case by simp
next
  case (Cons y ys)
  then show ?case
    by (cases "qualifies c y") (simp_all add: scanMethod_yes scanMethod_no distinct_update)
qed

lemma foldl_scan_other:
  "n \<notin> mName ` set xs \<Longrightarrow> map_of (foldl (scanMethod c sn rv) ms xs) n = map_of ms n"
proof (induction xs arbitrary: ms)
  case Nil
  then show ?case by simp
next
  case (Cons y ys)
  then show ?case
    by (cases "qualifies c y") (auto simp: scanMethod_yes scanMethod_no update_conv')
qed

lemma foldl_scan_lookup:
  "distinct (map mName xs) \<Longrightarrow> x \<in> set xs \<Longrightarrow> mName x \<notin> dom (map_of ms) \<Longrightarrow>
   map_of (foldl (scanMethod c sn rv) ms xs) (mName x) = (if qualifies c x then Some (descriptor sn rv x) else None)"
proof (induction xs arbitrary: ms)
  case Nil
  then show ?case by simp
next
  case (Cons y ys)
  show ?case
  proof (cases "x = y")
    case True
    with Cons.prems have "mName x \<notin> mName ` set ys" by auto
    then have "map_of (foldl (scanMethod c sn rv) (scanMethod c sn rv ms y) ys) (mName x)
                 = map_of (scanMethod c sn rv ms y) (mName x)"
      by (rule foldl_scan_other)
    then show ?thesis using True Cons.prems(3)
      by (cases "qualifies c y") (auto simp: scanMethod_yes scanMethod_no update_conv')
  next
    case False
    with Cons.prems have xin: "x \<in> set ys" and ne: "mName y \<noteq> mName x" by auto
    have "mName x \<notin> dom (map_of (scanMethod c sn rv ms y))"
      using Cons.prems(3) ne 
      by (cases "qualifies c y") (auto simp: scanMethod_yes scanMethod_no update_conv')
    with Cons.IH[of "scanMethod c sn rv ms y"] Cons.prems(1) xin show ?thesis by simp
  qed
qed

lemma scanMethods_keys:
  "fst ` set (scanMethods c sn r) = mName ` {x \<in> set (rv_methods r). qualifies c x}"
  by (simp add: scanMethods_def foldl_scan_keys)

lemma scanMethods_distinct: "distinct (map fst (scanMethods c sn r))"
  by (simp add: scanMethods_def foldl_scan_distinct)

lemma scanMethods_empty:
  "scanMethods c sn r = [] \<longleftrightarrow> \<not> (\<exists>x \<in> set (rv_methods r). qualifies c x)"
proof -
  have "scanMethods c sn r = [] \<longleftrightarrow> fst ` set (scanMethods c sn r) = {}" by simp
  also have "\<dots> \<longleftrightarrow> \<not> (\<exists>x \<in> set (rv_methods r). qualifies c x)"
    unfolding scanMethods_keys by blast
  finally show ?thesis .
qed

lemma scanMethods_lookup:
  "distinct (map mName (rv_methods r)) \<Longrightarrow> x \<in> set (rv_methods r) \<Longrightarrow>
   map_of (scanMethods c sn r) (mName x) =
     (if qualifies c x then Some (descriptor sn (rv_value r) x) else None)"
  by (simp add: scanMethods_def foldl_scan_lookup)

lemma add_resolved:
  assumes "resolveName r nm = Return sname" and "sname \<noteq> []"
  shows "add m (Some r) nm c =
     (if scanMethods c sname r = [] then Return (Some (ErrNoSuitableMethods sname), m)
      else if sname \<in> fst ` set (entries m) then Return (Some (ErrAlreadyDefined sname), m)
      else Return (None, m\<lparr>services := Some (AList.update sname
              \<lparr> svc_name = sname, svc_methods = scanMethods c sname r, svc_rValue = rv_value r \<rparr>
              (entries m))\<rparr>))"
  using assms
  by (auto simp: add_def entries_def Let_def map_of_eq_None_iff split: option.splits)

lemma add_cases:
  "add m rcvr nm c = Panic \<or> (\<exists>e. add m rcvr nm c = Return (Some e, m)) \<or>
   (\<exists>r sname. rcvr = Some r \<and> resolveName r nm = Return sname \<and> sname \<noteq> [] \<and>
      scanMethods c sname r \<noteq> [] \<and> sname \<notin> fst ` set (entries m) \<and>
      add m rcvr nm c = Return (None, m\<lparr>services := Some (AList.update sname
              \<lparr> svc_name = sname, svc_methods = scanMethods c sname r, svc_rValue = rv_value r \<rparr>
              (entries m))\<rparr>))"
proof (cases rcvr)
  case None
  then show ?thesis by (simp add: add_def)
next
  case (Some r)
  show ?thesis
  proof (cases "resolveName r nm")
    case Panic
    then show ?thesis using Some by (simp add: add_def)
  next
    case (Return sname)
    show ?thesis
    proof (cases "sname = []")
      case True
      then show ?thesis using Some Return by (simp add: add_def)
    next
      case False
      show ?thesis
        unfolding Some add_resolved[OF Return False] using Return False by auto
    qed
  qed
qed

lemma add_duplicate:
  assumes "resolveName r nm = Return sname" and "sname \<in> fst ` set (entries m)"
  shows "\<exists>e. add m (Some r) nm c = Return (Some e, m)"
proof (cases "sname = []")
  case True
  then show ?thesis using assms(1) by (simp add: add_def)
next
  case False
  show ?thesis unfolding add_resolved[OF assms(1) False] using assms(2) by simp
qed

lemma get_dotted:
  assumes "CHR ''.'' \<notin> set a" and "CHR ''.'' \<notin> set b"
  shows "get m (a @ CHR ''.'' # b) =
     (case map_of (entries m) a of
        None \<Rightarrow> Inl (ErrCantFindService (a @ CHR ''.'' # b))
      | Some s \<Rightarrow>
          (case map_of (svc_methods s) b of
             None \<Rightarrow> Inl (ErrCantFindMethod (a @ CHR ''.'' # b))
           | Some d \<Rightarrow> Inr d))"
  by (simp add: get_def Split_parts[OF assms] split: option.splits)

lemma get_not_two:
  "length (Split method (CHR ''.'')) \<noteq> 2 \<Longrightarrow> get m method = Inl (ErrIllFormed method)"
  by (simp add: get_def)

lemma wellNamed_no_empty_service: "wellNamed m \<Longrightarrow> map_of (entries m) [] = None"
  by (auto simp: wellNamed_def list_all_iff map_of_eq_None_iff)

lemma wellNamed_no_empty_method:
  "wellNamed m \<Longrightarrow> map_of (entries m) a = Some s \<Longrightarrow> map_of (svc_methods s) [] = None"
  by (fastforce simp: wellNamed_def list_all_iff map_of_eq_None_iff dest: map_of_SomeD)

lemma get_ill_formed:
  assumes wn: "wellNamed m"
    and ill: "\<not> (\<exists>a b. method = a @ CHR ''.'' # b \<and> a \<noteq> [] \<and> b \<noteq> [] \<and>
                 CHR ''.'' \<notin> set a \<and> CHR ''.'' \<notin> set b)"
  shows "\<exists>e. get m method = Inl e"
proof (cases "length (Split method (CHR ''.'')) = 2")
  case False
  then show ?thesis by (simp add: get_not_two)
next
  case True
  then obtain a b where ab: "method = a @ CHR ''.'' # b" "CHR ''.'' \<notin> set a" "CHR ''.'' \<notin> set b"
    unfolding Split_two by blast
  with ill have "a = [] \<or> b = []" by blast
  then show ?thesis
  proof
    assume "a = []"
    then show ?thesis
      using get_dotted[OF ab(2,3), of m] wellNamed_no_empty_service[OF wn] ab(1) by simp
  next
    assume b: "b = []"
    show ?thesis
    proof (cases "map_of (entries m) a")
      case None
      then show ?thesis using get_dotted[OF ab(2,3), of m] ab(1) by simp
    next
      case (Some s)
      then show ?thesis
        using get_dotted[OF ab(2,3), of m] wellNamed_no_empty_method[OF wn Some] ab(1) b by simp
    qed
  qed
qed

lemma set_update_subset: "set (AList.update k v al) \<subseteq> insert (k, v) (set al)"
  by (induction al) auto

lemma add_wellNamed:
  assumes "add m rcvr nm c = Return (e, m')" and "wellNamed m"
    and "\<And>r. rcvr = Some r \<Longrightarrow> list_all (\<lambda>x. mName x \<noteq> []) (rv_methods r)"
  shows "wellNamed m'"
proof -
  from add_cases[of m rcvr nm c] assms(1) consider "m' = m"
    | r sname where "rcvr = Some r" "sname \<noteq> []"
        "m' = m\<lparr>services := Some (AList.update sname
              \<lparr> svc_name = sname, svc_methods = scanMethods c sname r, svc_rValue = rv_value r \<rparr>
              (entries m))\<rparr>"
    by auto
  then show ?thesis
  proof cases
    case 1
    then show ?thesis using assms(2) by simp
  next
    case 2
    have names: "\<forall>(n, d) \<in> set (scanMethods c sname r). n \<noteq> []"
    proof -
      have "fst ` set (scanMethods c sname r) \<subseteq> mName ` set (rv_methods r)"
        unfolding scanMethods_keys by blast
      moreover have "[] \<notin> mName ` set (rv_methods r)"
        using assms(3)[OF 2(1)] by (auto simp: list_all_iff)
      ultimately show ?thesis by force
    qed
    have ent: "entries m' = AList.update sname
              \<lparr> svc_name = sname, svc_methods = scanMethods c sname r, svc_rValue = rv_value r \<rparr>
              (entries m)"
      unfolding 2(3) by (simp add: entries_def)
    have old: "\<forall>(k, s) \<in> set (entries m). k \<noteq> [] \<and> (\<forall>(n, d) \<in> set (svc_methods s). n \<noteq> [])"
      using assms(2) by (simp add: wellNamed_def list_all_iff case_prod_unfold)
    have "\<forall>(k, s) \<in> set (entries m'). k \<noteq> [] \<and> (\<forall>(n, d) \<in> set (svc_methods s). n \<noteq> [])"
    proof (clarify, rule conjI)
      fix k s assume ks: "(k, s) \<in> set (entries m')"
      then have disj: "(k, s) = (sname, \<lparr> svc_name = sname, svc_methods = scanMethods c sname r, svc_rValue = rv_value r \<rparr>) \<or> (k, s) \<in> set (entries m)"
        unfolding ent using set_update_subset by fastforce
      show "k \<noteq> []" using disj 2(2) old by auto
      show "\<forall>(n, d) \<in> set (svc_methods s). n \<noteq> []" using disj names old by auto
    qed
    then show ?thesis
      by (simp add: wellNamed_def list_all_iff case_prod_unfold)
  qed
qed

lemma MapService_inner:
  "map_of ret k = Some l \<Longrightarrow>
   map_of (foldl (\<lambda>ret method. AList.update k (sliceAt ret k @ [method]) ret) ret names)
     = (map_of ret)(k \<mapsto> l @ names)"
proof (induction names arbitrary: ret l)
  case Nil
  then show ?case by (simp add: map_upd_triv)
next
  case (Cons n ns)
  have "map_of (AList.update k (sliceAt ret k @ [n]) ret) k = Some (l @ [n])"
    using Cons.prems by (simp add: update_conv' sliceAt_def)
  from Cons.IH[OF this] show ?case
    by (auto simp: update_conv' fun_eq_iff)
qed

lemma MapService_inner_distinct:
  "distinct (map fst ret) \<Longrightarrow>
   distinct (map fst (foldl (\<lambda>ret method. AList.update k (sliceAt ret k @ [method]) ret) ret names))"
  by (induction names arbitrary: ret) (simp_all add: distinct_update)

lemma MapService_map_of:
  "map_of (MapService ret s names) = (map_of ret)(svc_name s \<mapsto> names)"
proof -
  have "map_of (AList.update (svc_name s) [] ret) (svc_name s) = Some []"
    by (simp add: update_conv')
  from MapService_inner[OF this, of names] show ?thesis
    by (simp add: MapService_def update_conv')
qed

lemma MapService_distinct:
  "distinct (map fst ret) \<Longrightarrow> distinct (map fst (MapService ret s names))"
  by (simp add: MapService_def MapService_inner_distinct distinct_update)

lemma MapIn_foldl_distinct:
  "distinct (map fst ret) \<Longrightarrow> distinct (map fst (foldl (\<lambda>ret s. MapService ret s (mo s)) ret ss))"
  by (induction ss arbitrary: ret) (simp_all add: MapService_distinct)

lemma MapIn_foldl_other:
  "k \<notin> svc_name ` set ss \<Longrightarrow>
   map_of (foldl (\<lambda>ret s. MapService ret s (mo s)) ret ss) k = map_of ret k"
  by (induction ss arbitrary: ret) (simp_all add: MapService_map_of)

lemma MapIn_foldl_member:
  "distinct (map svc_name ss) \<Longrightarrow> s \<in> set ss \<Longrightarrow>
   map_of (foldl (\<lambda>ret s. MapService ret s (mo s)) ret ss) (svc_name s) = Some (mo s)"
proof (induction ss arbitrary: ret)
  case Nil
  then show ?case by simp
next
  case (Cons t ts)
  show ?case
  proof (cases "s = t")
    case True
    with Cons.prems have "svc_name s \<notin> svc_name ` set ts" by auto
    then show ?thesis using True by (simp add: MapIn_foldl_other MapService_map_of)
  next
    case False
    with Cons.prems have "s \<in> set ts" "distinct (map svc_name ts)" by auto
    then show ?thesis using Cons.IH by simp
  qed
qed

lemma MapIn_distinct: "distinct (map fst (MapIn ss mo))"
  by (simp add: MapIn_def MapIn_foldl_distinct)

lemma MapIn_member:
  "distinct (map svc_name ss) \<Longrightarrow> s \<in> set ss \<Longrightarrow> map_of (MapIn ss mo) (svc_name s) = Some (mo s)"
  by (simp add: MapIn_def MapIn_foldl_member)

lemma MapIn_other: "k \<notin> svc_name ` set ss \<Longrightarrow> map_of (MapIn ss mo) k = None"
  by (simp add: MapIn_def MapIn_foldl_other)

lemma MapIn_keys: "distinct (map svc_name ss) \<Longrightarrow> fst ` set (MapIn ss mo) = svc_name ` set ss"
proof -
  assume d: "distinct (map svc_name ss)"
  have "dom (map_of (MapIn ss mo)) = svc_name ` set ss"
  proof (rule set_eqI)
    fix k show "k \<in> dom (map_of (MapIn ss mo)) \<longleftrightarrow> k \<in> svc_name ` set ss"
    proof (cases "k \<in> svc_name ` set ss")
      case True
      then obtain s where "s \<in> set ss" "k = svc_name s" by blast
      with MapIn_member[OF d, of s mo] True show ?thesis by auto
    next
      case False
      with MapIn_other[of k ss mo] show ?thesis by auto
    qed
  qed
  then show ?thesis by (simp add: dom_map_of_conv_image_fst)
qed

lemma add_success:
  assumes "add m rcvr nm c = Return (None, m')"
  obtains r sname s where "rcvr = Some r" and "resolveName r nm = Return sname"
    and "sname \<noteq> []" and "sname \<notin> fst ` set (entries m)"
    and "entries m' = AList.update sname s (entries m)"
    and "svc_name s = sname" and "svc_methods s = scanMethods c sname r"
    and "svc_rValue s = rv_value r" and "scanMethods c sname r \<noteq> []"
proof -
  from add_cases[of m rcvr nm c] assms obtain r sname where
    *: "rcvr = Some r" "resolveName r nm = Return sname" "sname \<noteq> []"
       "scanMethods c sname r \<noteq> []" "sname \<notin> fst ` set (entries m)"
       "m' = m\<lparr>services := Some (AList.update sname
              \<lparr> svc_name = sname, svc_methods = scanMethods c sname r, svc_rValue = rv_value r \<rparr>
              (entries m))\<rparr>"
    by auto
  let ?s = "\<lparr> svc_name = sname, svc_methods = scanMethods c sname r, svc_rValue = rv_value r \<rparr>"
  have e: "entries m' = AList.update sname ?s (entries m)"
    by (simp add: *(6) entries_def)
  have "svc_name ?s = sname" "svc_methods ?s = scanMethods c sname r" "svc_rValue ?s = rv_value r"
    by simp_all
  with *(1,2,3,5) e show ?thesis using *(4) by (rule that)
qed

lemma add_regInv:
  assumes "add m rcvr nm c = Return (e, m')" and "regInv m"
  shows "regInv m'"
proof (cases e)
  case (Some err)
  with add_cases[of m rcvr nm c] assms show ?thesis by auto
next
  case None
  with assms(1) have "add m rcvr nm c = Return (None, m')" by simp
  then obtain r sname s where
    *: "sname \<notin> fst ` set (entries m)" "entries m' = AList.update sname s (entries m)"
       "svc_name s = sname" "svc_methods s = scanMethods c sname r"
    by (rule add_success)
  have d: "distinct (map fst (entries m'))"
    unfolding *(2) using assms(2) by (simp add: regInv_def distinct_update)
  have old: "\<forall>(k, t) \<in> set (entries m). svc_name t = k \<and> distinct (map fst (svc_methods t))"
    using assms(2) by (simp add: regInv_def list_all_iff case_prod_unfold)
  have "\<forall>(k, t) \<in> set (entries m'). svc_name t = k \<and> distinct (map fst (svc_methods t))"
  proof clarify
    fix k t assume "(k, t) \<in> set (entries m')"
    then have "(k, t) = (sname, s) \<or> (k, t) \<in> set (entries m)"
      unfolding *(2) using set_update_subset by fastforce
    then show "svc_name t = k \<and> distinct (map fst (svc_methods t))"
      using old *(3,4) scanMethods_distinct by auto
  qed
  with d show ?thesis by (simp add: regInv_def list_all_iff case_prod_unfold)
qed

lemma regInv_empty: "regInv \<lparr>services = None\<rparr>"
  by (simp add: regInv_def entries_def)

lemma registerAll_regInv:
  "registerAll m0 regs = Some m \<Longrightarrow> regInv m0 \<Longrightarrow> regInv m"
proof (induction regs arbitrary: m0)
  case Nil
  then show ?case by simp
next
  case (Cons reg regs)
  obtain rcvr nm c where reg: "reg = (rcvr, nm, c)" by (cases reg)
  from Cons.prems(1) obtain m1 where
    a: "add m0 rcvr nm c = Return (None, m1)" and rest: "registerAll m1 regs = Some m"
    unfolding reg by (auto split: result.splits option.splits prod.splits)
  from add_regInv[OF a Cons.prems(2)] Cons.IH[OF rest] show ?case by simp
qed

lemma registerAll_entries:
  "registerAll m0 regs = Some m \<Longrightarrow>
   (\<forall>k. k \<in> fst ` set (entries m0) \<longrightarrow> map_of (entries m) k = map_of (entries m0) k) \<and>
   fst ` set (entries m) = fst ` set (entries m0) \<union>
      {sname. \<exists>r nm c. (Some r, nm, c) \<in> set regs \<and> resolveName r nm = Return sname} \<and>
   (\<forall>r nm c sname. (Some r, nm, c) \<in> set regs \<and> resolveName r nm = Return sname \<longrightarrow>
      (\<exists>s. map_of (entries m) sname = Some s \<and> svc_name s = sname \<and>
           svc_methods s = scanMethods c sname r \<and> svc_rValue s = rv_value r))"
proof (induction regs arbitrary: m0)
  case Nil
  then show ?case by simp
next
  case (Cons reg regs)
  obtain rcvr nm c where reg: "reg = (rcvr, nm, c)" by (cases reg)
  from Cons.prems(1) obtain m1 where
    a: "add m0 rcvr nm c = Return (None, m1)" and rest: "registerAll m1 regs = Some m"
    unfolding reg by (auto split: result.splits option.splits prod.splits)
  from a obtain r sname s where
    *: "rcvr = Some r" "resolveName r nm = Return sname"
       "sname \<notin> fst ` set (entries m0)" "entries m1 = AList.update sname s (entries m0)"
       "svc_name s = sname" "svc_methods s = scanMethods c sname r" "svc_rValue s = rv_value r"
    by (rule add_success)
  have keys1: "fst ` set (entries m1) = insert sname (fst ` set (entries m0))"
    unfolding *(4) by (simp add: dom_update)
  have map1: "map_of (entries m1) = (map_of (entries m0))(sname \<mapsto> s)"
    unfolding *(4) by (simp add: update_conv')
  note IH = Cons.IH[OF rest]
  have p1: "\<forall>k. k \<in> fst ` set (entries m0) \<longrightarrow> map_of (entries m) k = map_of (entries m0) k"
  proof (intro allI impI)
    fix k assume k: "k \<in> fst ` set (entries m0)"
    then have "k \<noteq> sname" using *(3) by auto
    moreover from k have "k \<in> fst ` set (entries m1)" by (simp add: keys1)
    ultimately show "map_of (entries m) k = map_of (entries m0) k"
      using IH map1 by simp
  qed
  have new: "map_of (entries m) sname = Some s"
    using IH keys1 map1 by simp
  have p2: "fst ` set (entries m) = fst ` set (entries m0) \<union>
      {sname. \<exists>r nm c. (Some r, nm, c) \<in> set (reg # regs) \<and> resolveName r nm = Return sname}"
  proof -
    have "{sn. \<exists>r' nm' c'. (Some r', nm', c') \<in> set (reg # regs) \<and> resolveName r' nm' = Return sn}
        = insert sname {sn. \<exists>r' nm' c'. (Some r', nm', c') \<in> set regs \<and> resolveName r' nm' = Return sn}"
      using *(1,2) reg by auto
    then show ?thesis using IH keys1 by auto
  qed
  have p3: "\<forall>r' nm' c' sn. (Some r', nm', c') \<in> set (reg # regs) \<and> resolveName r' nm' = Return sn \<longrightarrow>
      (\<exists>s. map_of (entries m) sn = Some s \<and> svc_name s = sn \<and>
           svc_methods s = scanMethods c' sn r' \<and> svc_rValue s = rv_value r')"
  proof (intro allI impI, elim conjE)
    fix r' nm' c' sn
    assume mem: "(Some r', nm', c') \<in> set (reg # regs)" and res: "resolveName r' nm' = Return sn"
    from mem consider "(Some r', nm', c') = reg" | "(Some r', nm', c') \<in> set regs" by auto
    then show "\<exists>s. map_of (entries m) sn = Some s \<and> svc_name s = sn \<and>
           svc_methods s = scanMethods c' sn r' \<and> svc_rValue s = rv_value r'"
    proof cases
      case 1
      then have "r' = r" "nm' = nm" "c' = c" using reg *(1) by auto
      with res *(2) have "sn = sname" by simp
      with new *(5,6,7) \<open>r' = r\<close> \<open>c' = c\<close> show ?thesis by simp
    next
      case 2
      with IH res show ?thesis by blast
    qed
  qed
  from p1 p2 p3 show ?case by blast
qed

lemma ex_qualifies: "qualifies exContext exHello" "\<not> qualifies exContext exBye"
  by (simp_all add: qualifies_def exHello_def exBye_def exContext_def)

lemma ex_resolve: "resolveName exTestService [] = Return ''TestService''"
  by (simp add: resolveName_def exTestService_def)

lemma ex_fields:
  "mName exHello = ''Hello''" "mName exBye = ''Bye''"
  "rv_value exTestService = 0" "rv_methods exTestService = [exBye, exHello]"
  by (simp_all add: exHello_def exBye_def exTestService_def)

lemma ex_scan: "scanMethods exContext sn exTestService = [(''Hello'', descriptor sn 0 exHello)]"
  by (simp add: scanMethods_def ex_fields scanMethod_yes scanMethod_no ex_qualifies)

lemma ex_add: "add \<lparr>services = None\<rparr> (Some exTestService) [] exContext = Return (None, exRegistry)"
  by (simp add: add_resolved[OF ex_resolve] ex_scan entries_def exRegistry_def ex_fields)

subsection \<open>Which methods are registered, and when add fails\<close>

text \<open>
  Claim C4, as amended. For a receiver whose resolved service name is not empty (method
  names being distinct, as in any Go method set): \<open>add\<close> returns an error, leaving the
  registry as it was, exactly when no method of the receiver qualifies or the name is
  already registered. Otherwise \<open>add\<close> succeeds and the service stored under the name
  holds, for every method of the receiver, its descriptor if the method is exported with
  the signature (receiver, pointer to the context type, pointer, pointer) \<open>\<rightarrow>\<close> error, and
  nothing if it is not: a method that does not qualify is skipped, it does not fail the
  registration.
\<close>

theorem add_registers_exactly_qualifying:
  assumes "distinct (map mName (rv_methods r))"
    and "resolveName r nm = Return sname" and "sname \<noteq> []"
  shows "((\<exists>e. add m (Some r) nm c = Return (Some e, m)) \<longleftrightarrow>
            (\<not> (\<exists>x \<in> set (rv_methods r). qualifies c x) \<or> sname \<in> fst ` set (entries m))) \<and>
         ((\<exists>x \<in> set (rv_methods r). qualifies c x) \<and> sname \<notin> fst ` set (entries m) \<longrightarrow>
            (\<exists>m' s. add m (Some r) nm c = Return (None, m') \<and>
               map_of (entries m') sname = Some s \<and>
               fst ` set (svc_methods s) \<subseteq> mName ` set (rv_methods r) \<and>
               (\<forall>x \<in> set (rv_methods r).
                  map_of (svc_methods s) (mName x) =
                    (if qualifies c x then Some (descriptor sname (rv_value r) x) else None))))"
proof (intro conjI impI)
  show "(\<exists>e. add m (Some r) nm c = Return (Some e, m)) \<longleftrightarrow>
            (\<not> (\<exists>x \<in> set (rv_methods r). qualifies c x) \<or> sname \<in> fst ` set (entries m))"
    unfolding add_resolved[OF assms(2,3)] scanMethods_empty by auto
next
  assume q: "(\<exists>x \<in> set (rv_methods r). qualifies c x) \<and> sname \<notin> fst ` set (entries m)"
  let ?s = "\<lparr> svc_name = sname, svc_methods = scanMethods c sname r, svc_rValue = rv_value r \<rparr>"
  let ?m = "m\<lparr>services := Some (AList.update sname ?s (entries m))\<rparr>"
  have 1: "add m (Some r) nm c = Return (None, ?m)"
    unfolding add_resolved[OF assms(2,3)] using q by (simp add: scanMethods_empty)
  have 2: "map_of (entries ?m) sname = Some ?s"
    by (simp add: entries_def update_conv')
  have 3: "fst ` set (svc_methods ?s) \<subseteq> mName ` set (rv_methods r)"
    by (auto simp: scanMethods_keys)
  have 4: "\<forall>x \<in> set (rv_methods r). map_of (svc_methods ?s) (mName x) =
                    (if qualifies c x then Some (descriptor sname (rv_value r) x) else None)"
    using scanMethods_lookup[OF assms(1)] by simp
  from 1 2 3 4 show "\<exists>m' s. add m (Some r) nm c = Return (None, m') \<and>
               map_of (entries m') sname = Some s \<and>
               fst ` set (svc_methods s) \<subseteq> mName ` set (rv_methods r) \<and>
               (\<forall>x \<in> set (rv_methods r).
                  map_of (svc_methods s) (mName x) =
                    (if qualifies c x then Some (descriptor sname (rv_value r) x) else None))"
    by blast
qed

text \<open>
  The receiver of the test, with one qualifying method (\<open>Hello\<close>) and one that takes its
  argument by value (\<open>Bye\<close>), registered in an empty registry.
\<close>

theorem add_registers_exactly_qualifying_witness:
  "distinct (map mName (rv_methods exTestService)) \<and>
   resolveName exTestService [] = Return ''TestService'' \<and> ''TestService'' \<noteq> [] \<and>
   (\<exists>x \<in> set (rv_methods exTestService). qualifies exContext x) \<and>
   ''TestService'' \<notin> fst ` set (entries \<lparr>services = None\<rparr>) \<and>
   (\<exists>m' s. add \<lparr>services = None\<rparr> (Some exTestService) [] exContext = Return (None, m') \<and>
      map_of (entries m') ''TestService'' = Some s \<and>
      map_of (svc_methods s) ''Hello'' = Some (descriptor ''TestService'' 0 exHello) \<and>
      map_of (svc_methods s) ''Bye'' = None)"
proof -
  have h1: "distinct (map mName (rv_methods exTestService))"
    by (simp add: ex_fields)
  have h3: "''TestService'' \<noteq> []" by simp
  have q: "(\<exists>x \<in> set (rv_methods exTestService). qualifies exContext x) \<and>
           ''TestService'' \<notin> fst ` set (entries \<lparr>services = None\<rparr>)"
    using ex_qualifies by (simp add: ex_fields entries_def)
  from add_registers_exactly_qualifying[OF h1 ex_resolve h3, of "\<lparr>services = None\<rparr>" exContext] q
  obtain m' s where *: "add \<lparr>services = None\<rparr> (Some exTestService) [] exContext = Return (None, m')"
      "map_of (entries m') ''TestService'' = Some s"
      "\<forall>x \<in> set (rv_methods exTestService).
          map_of (svc_methods s) (mName x) =
            (if qualifies exContext x then Some (descriptor ''TestService'' (rv_value exTestService) x) else None)"
    by blast
  from *(3) have "map_of (svc_methods s) ''Hello'' = Some (descriptor ''TestService'' 0 exHello)"
       "map_of (svc_methods s) ''Bye'' = None"
    using ex_qualifies by (auto simp: ex_fields)
  with *(1,2) h1 ex_resolve q show ?thesis by blast
qed

text \<open>
  Claim C4 as stated has \<open>add\<close> return an error exactly when zero methods qualify.
  Registering the test's receiver a second time under the same name returns an error
  although its method \<open>Hello\<close> qualifies.
\<close>

theorem add_error_not_only_zero_methods_counterexample:
  "add exRegistry (Some exTestService) [] exContext = Return (Some (ErrAlreadyDefined ''TestService''), exRegistry) \<and>
   qualifies exContext (rv_methods exTestService ! 1)"
  using ex_qualifies
  by (simp add: add_resolved[OF ex_resolve] ex_scan entries_def exRegistry_def ex_fields)

lemma ex_resolve2: "resolveName exTestService ''Second'' = Return ''Second''"
  by (simp add: resolveName_def)

lemma ex_add2: "add exRegistry (Some exTestService) ''Second'' exContext = Return (None, exRegistry2)"
  by (simp add: add_resolved[OF ex_resolve2] ex_scan entries_def exRegistry_def exRegistry2_def ex_fields)

lemma ex_registerAll:
  "registerAll \<lparr>services = None\<rparr>
     [(Some exTestService, [], exContext), (Some exTestService, ''Second'', exContext)] = Some exRegistry2"
  by (simp add: ex_add ex_add2)

lemma ex_wellNamed: "wellNamed exRegistry"
  by (simp add: wellNamed_def exRegistry_def entries_def)

lemma Map_in_MapResults: "Map m \<in> MapResults m"
  unfolding Map_def MapResults_def by blast

subsection \<open>Duplicate service names\<close>

text \<open>
  Claim C5. A registration whose resolved service name is already a key of the registry
  returns an error, and the registry it leaves is the one it found: nothing is
  overwritten or merged, and \<open>get\<close> answers every name as before.
\<close>

theorem add_duplicate_name_rejected:
  assumes "resolveName r nm = Return sname" and "sname \<in> fst ` set (entries m)"
  shows "\<exists>e m'. add m (Some r) nm c = Return (Some e, m') \<and> m' = m \<and>
           (\<forall>method. get m' method = get m method)"
  using add_duplicate[OF assms] by auto

text \<open>The test's third registration: the same receiver again, under its type name.\<close>

theorem add_duplicate_name_rejected_witness:
  "resolveName exTestService [] = Return ''TestService'' \<and>
   ''TestService'' \<in> fst ` set (entries exRegistry) \<and>
   (\<exists>e. add exRegistry (Some exTestService) [] exContext = Return (Some e, exRegistry))"
proof -
  have h: "''TestService'' \<in> fst ` set (entries exRegistry)"
    by (simp add: exRegistry_def entries_def)
  from add_duplicate_name_rejected[OF ex_resolve h, of exContext] ex_resolve h
  show ?thesis by auto
qed

subsection \<open>Lookup\<close>

text \<open>Registries built by \<open>add\<close> from receivers with Go method names are well named.\<close>

lemma wellNamed_empty: "wellNamed \<lparr>services = None\<rparr>"
  by (simp add: wellNamed_def entries_def)

lemma registerAll_wellNamed:
  "registerAll m0 regs = Some m \<Longrightarrow> wellNamed m0 \<Longrightarrow>
   (\<forall>(rcvr, nm, c) \<in> set regs. \<forall>r. rcvr = Some r \<longrightarrow> list_all (\<lambda>x. mName x \<noteq> []) (rv_methods r)) \<Longrightarrow>
   wellNamed m"
proof (induction regs arbitrary: m0)
  case Nil
  then show ?case by simp
next
  case (Cons reg regs)
  obtain rcvr nm c where reg: "reg = (rcvr, nm, c)" by (cases reg)
  from Cons.prems(1) obtain m1 where
    a: "add m0 rcvr nm c = Return (None, m1)" and rest: "registerAll m1 regs = Some m"
    unfolding reg by (auto split: result.splits option.splits prod.splits)
  have "wellNamed m1"
    using a Cons.prems(2)
  proof (rule add_wellNamed)
    fix r assume "rcvr = Some r"
    with Cons.prems(3) reg show "list_all (\<lambda>x. mName x \<noteq> []) (rv_methods r)" by auto
  qed
  moreover from Cons.prems(3)
  have "\<forall>(rcvr, nm, c) \<in> set regs. \<forall>r. rcvr = Some r \<longrightarrow> list_all (\<lambda>x. mName x \<noteq> []) (rv_methods r)"
    by auto
  ultimately show ?case using Cons.IH[OF rest] by blast
qed

text \<open>
  Claim C6. On a registry whose service and method names are not empty, \<open>get\<close> returns
  an error for every string that is not of the form \<open>a.b\<close> with \<open>a\<close> and \<open>b\<close> non-empty
  and free of dots. For a string \<open>a.b\<close> with exactly that one dot, it returns an error
  exactly when no service is registered as \<open>a\<close> or that service has no method \<open>b\<close>, and
  otherwise the descriptor stored for \<open>b\<close> in the service \<open>a\<close>.
\<close>

theorem get_resolves_dotted_names:
  assumes "wellNamed m"
  shows "(\<not> (\<exists>a b. method = a @ CHR ''.'' # b \<and> a \<noteq> [] \<and> b \<noteq> [] \<and>
                CHR ''.'' \<notin> set a \<and> CHR ''.'' \<notin> set b) \<longrightarrow> (\<exists>e. get m method = Inl e)) \<and>
         (\<forall>a b. method = a @ CHR ''.'' # b \<and> CHR ''.'' \<notin> set a \<and> CHR ''.'' \<notin> set b \<longrightarrow>
            ((\<exists>e. get m method = Inl e) \<longleftrightarrow>
               (map_of (entries m) a = None \<or>
                (\<exists>s. map_of (entries m) a = Some s \<and> map_of (svc_methods s) b = None))) \<and>
            (\<forall>s d. map_of (entries m) a = Some s \<and> map_of (svc_methods s) b = Some d \<longrightarrow>
               get m method = Inr d))"
proof (intro conjI impI allI)
  assume "\<not> (\<exists>a b. method = a @ CHR ''.'' # b \<and> a \<noteq> [] \<and> b \<noteq> [] \<and>
                CHR ''.'' \<notin> set a \<and> CHR ''.'' \<notin> set b)"
  with assms show "\<exists>e. get m method = Inl e" by (rule get_ill_formed)
next
  fix a b
  assume "method = a @ CHR ''.'' # b \<and> CHR ''.'' \<notin> set a \<and> CHR ''.'' \<notin> set b"
  then show "(\<exists>e. get m method = Inl e) \<longleftrightarrow>
               (map_of (entries m) a = None \<or>
                (\<exists>s. map_of (entries m) a = Some s \<and> map_of (svc_methods s) b = None))"
    by (auto simp: get_dotted split: option.splits)
next
  fix a b s d
  assume "method = a @ CHR ''.'' # b \<and> CHR ''.'' \<notin> set a \<and> CHR ''.'' \<notin> set b"
    and "map_of (entries m) a = Some s \<and> map_of (svc_methods s) b = Some d"
  then show "get m method = Inr d"
    by (simp add: get_dotted)
qed

text \<open>The registry of the test: \<open>TestService.Hello\<close> resolves, \<open>TestService.\<close> does not.\<close>

theorem get_resolves_dotted_names_witness:
  "wellNamed exRegistry \<and>
   get exRegistry ''TestService.Hello'' = Inr (descriptor ''TestService'' 0 exHello) \<and>
   (\<exists>e. get exRegistry ''TestService.'' = Inl e)"
proof -
  have 1: "''TestService.Hello'' = ''TestService'' @ CHR ''.'' # ''Hello'' \<and>
           CHR ''.'' \<notin> set ''TestService'' \<and> CHR ''.'' \<notin> set ''Hello''"
    by simp
  have 2: "map_of (entries exRegistry) ''TestService'' = Some (snd (hd (entries exRegistry))) \<and>
           map_of (svc_methods (snd (hd (entries exRegistry)))) ''Hello''
             = Some (descriptor ''TestService'' 0 exHello)"
    by (simp add: exRegistry_def entries_def)
  have 3: "\<not> (\<exists>a b. ''TestService.'' = a @ CHR ''.'' # b \<and> a \<noteq> [] \<and> b \<noteq> [] \<and>
                CHR ''.'' \<notin> set a \<and> CHR ''.'' \<notin> set b)"
  proof
    assume "\<exists>a b. ''TestService.'' = a @ CHR ''.'' # b \<and> a \<noteq> [] \<and> b \<noteq> [] \<and>
                CHR ''.'' \<notin> set a \<and> CHR ''.'' \<notin> set b"
    then obtain a b where ab: "''TestService.'' = a @ CHR ''.'' # b" "b \<noteq> []" "CHR ''.'' \<notin> set b"
      by blast
    from ab(1) have "last ''TestService.'' = last (a @ CHR ''.'' # b)" by simp
    with ab(2) have "last b = CHR ''.''" by simp
    with ab(2,3) show False using last_in_set by metis
  qed
  from get_resolves_dotted_names[OF ex_wellNamed, of "''TestService.Hello''"] 1 2
  have "get exRegistry ''TestService.Hello'' = Inr (descriptor ''TestService'' 0 exHello)"
    by blast
  moreover from get_resolves_dotted_names[OF ex_wellNamed, of "''TestService.''"] 3
  have "\<exists>e. get exRegistry ''TestService.'' = Inl e" by blast
  ultimately show ?thesis using ex_wellNamed by simp
qed

subsection \<open>The snapshot\<close>

text \<open>
  Claim C7. After any sequence of successful registrations on a new registry, every
  value \<open>Map\<close> can return (whatever the order in which the two \<open>range\<close> loops visit the
  maps) has each key once, its keys are exactly the resolved names of the registrations,
  and under the name of each registration it lists the names of exactly the qualifying
  methods of that receiver, each once.
\<close>

theorem Map_lists_exactly_the_registered:
  assumes "registerAll \<lparr>services = None\<rparr> regs = Some m" and "ret \<in> MapResults m"
  shows "distinct (map fst ret) \<and>
         fst ` set ret =
           {sname. \<exists>r nm c. (Some r, nm, c) \<in> set regs \<and> resolveName r nm = Return sname} \<and>
         (\<forall>r nm c sname. (Some r, nm, c) \<in> set regs \<and> resolveName r nm = Return sname \<longrightarrow>
            (\<exists>names. map_of ret sname = Some names \<and> distinct names \<and>
               set names = mName ` {x \<in> set (rv_methods r). qualifies c x}))"
proof -
  from assms(2) obtain ss mo where ret: "ret = MapIn ss mo"
    and ss: "mset ss = mset (map snd (entries m))"
    and mo: "\<forall>s \<in> set ss. mset (mo s) = mset (map fst (svc_methods s))"
    unfolding MapResults_def by blast
  have inv: "regInv m" using registerAll_regInv[OF assms(1) regInv_empty] .
  have names_eq: "map svc_name (map snd (entries m)) = map fst (entries m)"
    using inv by (auto simp: regInv_def list_all_iff)
  have "mset (map svc_name ss) = mset (map fst (entries m))"
    using ss names_eq by (metis mset_map)
  then have dss: "distinct (map svc_name ss)"
    using inv mset_eq_imp_distinct_iff unfolding regInv_def by blast
  have sets: "set ss = snd ` set (entries m)"
    using mset_eq_setD[OF ss] by simp
  have keys: "svc_name ` set ss = fst ` set (entries m)"
    using names_eq sets by (metis image_set list.set_map)
  note E = registerAll_entries[OF assms(1)]
  have k: "fst ` set ret =
           {sname. \<exists>r nm c. (Some r, nm, c) \<in> set regs \<and> resolveName r nm = Return sname}"
    unfolding ret MapIn_keys[OF dss] keys using E by (simp add: entries_def)
  have "\<exists>names. map_of ret sname = Some names \<and> distinct names \<and>
               set names = mName ` {x \<in> set (rv_methods r). qualifies c x}"
    if "(Some r, nm, c) \<in> set regs \<and> resolveName r nm = Return sname" for r nm c sname
  proof -
    from E that obtain s where s: "map_of (entries m) sname = Some s" "svc_name s = sname"
      "svc_methods s = scanMethods c sname r" by blast
    from s(1) have "s \<in> set ss" unfolding sets by (force dest: map_of_SomeD)
    with MapIn_member[OF dss this, of mo] mo s(2)
    have 1: "map_of ret sname = Some (mo s)" and 2: "mset (mo s) = mset (map fst (svc_methods s))"
      by (simp_all add: ret)
    have "distinct (mo s)"
      using 2 scanMethods_distinct[of c sname r] s(3) mset_eq_imp_distinct_iff by metis
    moreover have "set (mo s) = mName ` {x \<in> set (rv_methods r). qualifies c x}"
      using mset_eq_setD[OF 2] s(3) scanMethods_keys[of c sname r] by simp
    ultimately show ?thesis using 1 by blast
  qed
  with k show ?thesis by (simp add: ret MapIn_distinct)
qed

text \<open>The two successful registrations of the test and the snapshot in insertion order.\<close>

theorem Map_lists_exactly_the_registered_witness:
  "registerAll \<lparr>services = None\<rparr>
     [(Some exTestService, [], exContext), (Some exTestService, ''Second'', exContext)] = Some exRegistry2 \<and>
   Map exRegistry2 \<in> MapResults exRegistry2 \<and>
   fst ` set (Map exRegistry2) = {''TestService'', ''Second''} \<and>
   map_of (Map exRegistry2) ''Second'' = Some [''Hello'']"
proof -
  let ?regs = "[(Some exTestService, [], exContext), (Some exTestService, ''Second'', exContext)]"
  note T = Map_lists_exactly_the_registered[OF ex_registerAll Map_in_MapResults]
  have "Map exRegistry2 = [(''TestService'', [''Hello'']), (''Second'', [''Hello''])]"
    by (simp add: Map_def MapIn_def MapService_def sliceAt_def exRegistry2_def entries_def)
  then have "fst ` set (Map exRegistry2) = {''TestService'', ''Second''}"
    "map_of (Map exRegistry2) ''Second'' = Some [''Hello'']"
    by simp_all
  with T ex_registerAll Map_in_MapResults show ?thesis by simp
qed

section \<open>Properties of the server\<close>

subsection \<open>The choice of the codec\<close>

lemma ToLower_empty: "ToLower rt [] = []"
  by (simp add: ToLower_def)

lemma selectCodec_single:
  "srv_codecs s = [(k, c)] \<Longrightarrow> selectCodec rt s [] = Inr c"
  by (simp add: selectCodec_def)

lemma selectCodec_lookup:
  "\<not> (ct = [] \<and> length (srv_codecs s) = 1) \<Longrightarrow>
   selectCodec rt s ct =
     (case map_of (srv_codecs s) (ToLower rt ct) of
        Some (Some codec) \<Rightarrow> Inr (Some codec)
      | _ \<Rightarrow> Inl (WriteError 415 (''rpc: unrecognized Content-Type: '' @ ct)))"
  by (auto simp add: selectCodec_def)

lemma selectCodec_empty_key:
  assumes "map_of (srv_codecs s) [] = Some (Some codec)"
  shows "selectCodec rt s [] = Inr (Some codec)"
proof (cases "length (srv_codecs s) = 1")
  case True
  then obtain k c where kc: "srv_codecs s = [(k, c)]"
    by (cases "srv_codecs s") auto
  with assms have "c = Some codec" by (simp split: if_splits)
  with kc show ?thesis by (simp add: selectCodec_single)
next
  case False
  then show ?thesis using assms by (simp add: selectCodec_lookup ToLower_empty)
qed

lemma RegisterCodec_lookup:
  "map_of (srv_codecs (RegisterCodec rt s codec contentType)) k =
     (if k = ToLower rt contentType then Some codec else map_of (srv_codecs s) k)"
  by (simp add: RegisterCodec_def update_conv')

lemma RegisterCodec_keys_distinct:
  "distinct (map fst (srv_codecs s)) \<Longrightarrow>
   distinct (map fst (srv_codecs (RegisterCodec rt s codec contentType)))"
  by (simp add: RegisterCodec_def distinct_update)

lemma ex_strip:
  "contentTypeOf \<lparr> r_Method = ''POST'', r_ContentType = ''text/xml; charset=utf-8'' \<rparr> = ''text/xml''"
  by (simp add: contentTypeOf_def)

lemma ex_lower_upper: "ToLower rt ''Text/XML'' = ''text/xml''"
  by code_simp

lemma serveWith_response:
  "(\<exists>st e. fst (serveWith rt s codec r w) = CodecWriteError (codec_id codec) st e) \<or>
   (\<exists>v. fst (serveWith rt s codec r w) = CodecWriteResponse (codec_id codec) v) \<or>
   fst (serveWith rt s codec r w) = Panicked"
  unfolding serveWith_def Let_def
  by (simp split: prod.split option.split sum.split result.split)

lemma serveWith_trace_head:
  "\<exists>t. fst (snd (serveWith rt s codec r w)) = NewRequestCalled (codec_id codec) # MethodCalled # t"
  unfolding serveWith_def Let_def
  by (simp split: prod.split option.split sum.split result.split)

text \<open>
  Claim C10. When a codec is stored under the empty key of the codec table, every POST
  request whose content type is empty is dispatched with that codec, however many codecs
  the table holds: its adapter is the first thing called, and the response is not the
  415 of an unrecognized content type.
\<close>

theorem empty_content_type_key_is_looked_up:
  assumes "r_Method r = ''POST''" and "contentTypeOf r = []"
    and "map_of (srv_codecs s) [] = Some (Some codec)"
  shows "ServeHTTP rt s r w = serveWith rt s codec r w \<and>
         (\<exists>t. fst (snd (ServeHTTP rt s r w)) = NewRequestCalled (codec_id codec) # t) \<and>
         (\<forall>msg. fst (ServeHTTP rt s r w) \<noteq> WriteError 415 msg)"
proof -
  have eq: "ServeHTTP rt s r w = serveWith rt s codec r w"
    using assms(1,2) selectCodec_empty_key[OF assms(3), of rt] by (simp add: ServeHTTP_def)
  moreover have "\<forall>msg. fst (serveWith rt s codec r w) \<noteq> WriteError 415 msg"
    using serveWith_response[of rt s codec r w] by auto
  moreover have "\<exists>t. fst (snd (serveWith rt s codec r w)) = NewRequestCalled (codec_id codec) # t"
    using serveWith_trace_head[of rt s codec r w] by auto
  ultimately show ?thesis by simp
qed

lemma ex_server0_built:
  "NewServer (Some (TPtr exContext)) = Inr exNewServer"
  "RegisterService exNewServer (Some exTestService) [] = Return (None, exServer0)"
  by (simp_all add: NewServer_def exNewServer_def RegisterService_def ex_add exServer0_def)

lemma ex_lower: "ToLower exRuntime ''application/json'' = ''application/json''"
  "ToLower exRuntime ''text/xml'' = ''text/xml''"
  by (simp_all add: ToLower_def lowerByte_def)

lemma ex_codecs:
  "srv_codecs exServerOne = [(''application/json'', Some exJson)]"
  "srv_codecs exServerTwo = [(''application/json'', Some exJson), ([], Some exXml)]"
  "srv_codecs exServerTwoKeyed = [(''application/json'', Some exJson), (''text/xml'', Some exXml)]"
  by (simp_all add: exServerOne_def exServerTwo_def exServerTwoKeyed_def RegisterCodec_def exServer0_def ex_lower ToLower_empty)

lemma ex_post: "r_Method exPost = ''POST''" "r_ContentType exPost = []" "contentTypeOf exPost = []"
  by (simp_all add: exPost_def contentTypeOf_def)

text \<open>Two codecs, the second one registered under the empty content type; no header.\<close>

theorem empty_content_type_key_is_looked_up_witness:
  "r_Method exPost = ''POST'' \<and> contentTypeOf exPost = [] \<and>
   map_of (srv_codecs exServerTwo) [] = Some (Some exXml) \<and>
   length (srv_codecs exServerTwo) = 2 \<and>
   ServeHTTP exRuntime exServerTwo exPost () = serveWith exRuntime exServerTwo exXml exPost () \<and>
   (\<forall>msg. fst (ServeHTTP exRuntime exServerTwo exPost ()) \<noteq> WriteError 415 msg)"
proof -
  have h: "map_of (srv_codecs exServerTwo) [] = Some (Some exXml)"
    by (simp add: ex_codecs)
  have l: "length (srv_codecs exServerTwo) = 2"
    by (simp add: ex_codecs)
  from empty_content_type_key_is_looked_up[OF ex_post(1) ex_post(3) h, of exRuntime "()"]
  have "ServeHTTP exRuntime exServerTwo exPost () = serveWith exRuntime exServerTwo exXml exPost ()"
    and "\<forall>msg. fst (ServeHTTP exRuntime exServerTwo exPost ()) \<noteq> WriteError 415 msg"
    by blast+
  with ex_post(1) ex_post(3) h l show ?thesis by blast
qed

lemma ex_serve_fields:
  "srv_services exServerTwo = exRegistry" "srv_ctxType exServerTwo = exContext"
  "beforeFns exServerTwo = []" "afterFns exServerTwo = []"
  by (simp_all add: exServerOne_def exServerTwo_def RegisterCodec_def exServer0_def
        beforeFns_def afterFns_def sliceView_def nilSlice_def)

lemma ex_get: "get exRegistry ''TestService.Hello'' = Inr (descriptor ''TestService'' 0 exHello)"
  using get_dotted[of "''TestService''" "''Hello''" exRegistry]
  by (simp add: exRegistry_def entries_def)

lemma ex_serveWith_xml:
  "serveWith exRuntime exServerTwo exXml exPost () =
     (CodecWriteResponse 2 0,
      [NewRequestCalled 2, MethodCalled, ReadRequestCalled 0,
       ServiceCalled ''TestService'' ''Hello'' 0 0 7 0], ())"
  by (simp add: serveWith_def ex_serve_fields ex_get exXml_def exAdapter_def exRuntime_def
        descriptor_def exHello_def)

lemma contentTypeOf_no_header: "r_ContentType r = [] \<Longrightarrow> contentTypeOf r = []"
  by (simp add: contentTypeOf_def)

text \<open>
  Claim C2 as stated has every dispatch with two codecs registered and no Content-Type
  header answer 415. With one of the two registered under the empty content type, the
  request is served by that codec.
\<close>

theorem two_codecs_no_header_not_415_counterexample:
  "r_Method exPost = ''POST'' \<and> r_ContentType exPost = [] \<and>
   length (srv_codecs exServerTwo) = 2 \<and>
   fst (ServeHTTP exRuntime exServerTwo exPost ()) = CodecWriteResponse 2 0"
proof -
  have "selectCodec exRuntime exServerTwo [] = Inr (Some exXml)"
    by (rule selectCodec_empty_key) (simp add: ex_codecs)
  then have "ServeHTTP exRuntime exServerTwo exPost () = serveWith exRuntime exServerTwo exXml exPost ()"
    by (simp add: ServeHTTP_def ex_post)
  then show ?thesis
    by (simp add: ex_serveWith_xml ex_post ex_codecs)
qed

text \<open>
  Claim C2, as amended. For a POST request: if the content type (the header value up to
  the first semicolon) is empty and the table holds exactly one codec, that codec serves
  the request; otherwise the table is read at the lower-cased content type, the codec
  found there serves the request, and when none is found the response is 415. In
  particular, with no header: two codecs registered, neither under the empty content
  type, give 415; exactly one codec registered serves the request.
\<close>

theorem codec_selected_by_content_type:
  assumes "r_Method r = ''POST''"
  shows "(contentTypeOf r = [] \<and> srv_codecs s = [(k, Some codec)] \<longrightarrow>
            ServeHTTP rt s r w = serveWith rt s codec r w) \<and>
         (\<not> (contentTypeOf r = [] \<and> length (srv_codecs s) = 1) \<longrightarrow>
            (case map_of (srv_codecs s) (ToLower rt (contentTypeOf r)) of
               Some (Some c) \<Rightarrow> ServeHTTP rt s r w = serveWith rt s c r w
             | _ \<Rightarrow> ServeHTTP rt s r w =
                      (WriteError 415 (''rpc: unrecognized Content-Type: '' @ contentTypeOf r), [], w))) \<and>
         (r_ContentType r = [] \<and> length (srv_codecs s) = 2 \<and>
          (\<forall>c. map_of (srv_codecs s) [] \<noteq> Some (Some c)) \<longrightarrow>
            ServeHTTP rt s r w = (WriteError 415 ''rpc: unrecognized Content-Type: '', [], w)) \<and>
         (r_ContentType r = [] \<and> srv_codecs s = [(k, Some codec)] \<longrightarrow>
            ServeHTTP rt s r w = serveWith rt s codec r w)"
proof (intro conjI impI)
  assume "contentTypeOf r = [] \<and> srv_codecs s = [(k, Some codec)]"
  then show "ServeHTTP rt s r w = serveWith rt s codec r w"
    using assms by (simp add: ServeHTTP_def selectCodec_single)
next
  assume "\<not> (contentTypeOf r = [] \<and> length (srv_codecs s) = 1)"
  then have "selectCodec rt s (contentTypeOf r) =
     (case map_of (srv_codecs s) (ToLower rt (contentTypeOf r)) of
        Some (Some codec) \<Rightarrow> Inr (Some codec)
      | _ \<Rightarrow> Inl (WriteError 415 (''rpc: unrecognized Content-Type: '' @ contentTypeOf r)))"
    by (rule selectCodec_lookup)
  then show "case map_of (srv_codecs s) (ToLower rt (contentTypeOf r)) of
               Some (Some c) \<Rightarrow> ServeHTTP rt s r w = serveWith rt s c r w
             | _ \<Rightarrow> ServeHTTP rt s r w =
                      (WriteError 415 (''rpc: unrecognized Content-Type: '' @ contentTypeOf r), [], w)"
    using assms by (simp add: ServeHTTP_def split: option.splits)
next
  assume a: "r_ContentType r = [] \<and> length (srv_codecs s) = 2 \<and>
          (\<forall>c. map_of (srv_codecs s) [] \<noteq> Some (Some c))"
  then have ct: "contentTypeOf r = []" by (simp add: contentTypeOf_no_header)
  from a have "selectCodec rt s [] = Inl (WriteError 415 ''rpc: unrecognized Content-Type: '')"
    by (simp add: selectCodec_lookup ToLower_empty split: option.splits)
  then show "ServeHTTP rt s r w = (WriteError 415 ''rpc: unrecognized Content-Type: '', [], w)"
    using assms ct by (simp add: ServeHTTP_def)
next
  assume "r_ContentType r = [] \<and> srv_codecs s = [(k, Some codec)]"
  then show "ServeHTTP rt s r w = serveWith rt s codec r w"
    using assms by (simp add: ServeHTTP_def selectCodec_single contentTypeOf_no_header)
qed

text \<open>No header; two codecs under \<open>application/json\<close> and \<open>text/xml\<close>, then one codec alone.\<close>

theorem codec_selected_by_content_type_witness:
  "r_Method exPost = ''POST'' \<and> r_ContentType exPost = [] \<and>
   length (srv_codecs exServerTwoKeyed) = 2 \<and>
   (\<forall>c. map_of (srv_codecs exServerTwoKeyed) [] \<noteq> Some (Some c)) \<and>
   srv_codecs exServerOne = [(''application/json'', Some exJson)] \<and>
   ServeHTTP exRuntime exServerTwoKeyed exPost () =
     (WriteError 415 ''rpc: unrecognized Content-Type: '', [], ()) \<and>
   ServeHTTP exRuntime exServerOne exPost () = serveWith exRuntime exServerOne exJson exPost ()"
proof -
  have two: "r_ContentType exPost = [] \<and> length (srv_codecs exServerTwoKeyed) = 2 \<and>
          (\<forall>c. map_of (srv_codecs exServerTwoKeyed) [] \<noteq> Some (Some c))"
    by (simp add: ex_post ex_codecs)
  have one: "r_ContentType exPost = [] \<and> srv_codecs exServerOne = [(''application/json'', Some exJson)]"
    by (simp add: ex_post ex_codecs)
  from codec_selected_by_content_type[OF ex_post(1), of exServerTwoKeyed _ _ exRuntime "()"] two
  have 1: "ServeHTTP exRuntime exServerTwoKeyed exPost () =
     (WriteError 415 ''rpc: unrecognized Content-Type: '', [], ())"
    by blast
  from codec_selected_by_content_type[OF ex_post(1), of exServerOne "''application/json''" exJson exRuntime "()"] one
  have 2: "ServeHTTP exRuntime exServerOne exPost () = serveWith exRuntime exServerOne exJson exPost ()"
    by blast
  from 1 2 two one ex_post(1) show ?thesis by blast
qed

subsection \<open>The hook loops\<close>

lemma runFns_append:
  "runFns ev r (xs @ ys) ctx w =
     (case runFns ev r xs ctx w of
        (Return None, ctx1, w1, es) \<Rightarrow>
          (case runFns ev r ys ctx1 w1 of (res, ctx2, w2, es') \<Rightarrow> (res, ctx2, w2, es @ es'))
      | other \<Rightarrow> other)"
proof (induction xs arbitrary: ctx w)
  case Nil
  then show ?case by (simp split: prod.splits)
next
  case (Cons x xs)
  show ?case
  proof (cases "reflectFuncCall x r ctx w")
    case Panic
    then show ?thesis by simp
  next
    case (Return res)
    obtain e ctx' w' where res: "res = (e, ctx', w')" by (cases res)
    show ?thesis
    proof (cases e)
      case (Some err)
      then show ?thesis using Return res by simp
    next
      case None
      then show ?thesis using Return res Cons.IH[of ctx' w']
        by (simp split: prod.splits result.splits option.splits)
    qed
  qed
qed

lemma runFns_fails_at:
  assumes "runFns ev r pre ctx w = (Return None, ctx1, w1, es)"
    and "reflectFuncCall fn r ctx1 w1 = Return (Some err, ctx2, w2)"
  shows "runFns ev r (pre @ fn # post) ctx w = (Return (Some err), ctx2, w2, es @ [ev (fnId fn) ctx1])"
  using assms by (simp add: runFns_append)

lemma runFns_before_ok:
  "runFns BeforeCalled r fns ctx w = (Return None, ctx1, w1, es) \<Longrightarrow>
   beforeIds es = map fnId fns \<and> list_all isBefore es"
proof (induction fns arbitrary: ctx w es)
  case Nil
  then show ?case by simp
next
  case (Cons x xs)
  from Cons.prems obtain ctx' w' es' where
    call: "reflectFuncCall x r ctx w = Return (None, ctx', w')"
    and rest: "runFns BeforeCalled r xs ctx' w' = (Return None, ctx1, w1, es')"
    and es: "es = BeforeCalled (fnId x) ctx # es'"
    by (auto split: result.splits option.splits prod.splits)
  from Cons.IH[OF rest] es show ?case by simp
qed

lemma beforeIds_append: "beforeIds (xs @ ys) = beforeIds xs @ beforeIds ys"
  by (induction xs rule: beforeIds.induct) simp_all

lemma serveWith_before_error:
  assumes "NewRequest codec r w = (codecReq, w1)"
    and "crMethod codecReq w1 = ((method, None), w2)"
    and "get (srv_services s) method = Inr methodSpec"
    and "runFns BeforeCalled r (beforeFns s) (zeroValue rt (srv_ctxType s)) w2
           = (Return (Some err), ctx1, w3, t1)"
  shows "serveWith rt s codec r w =
           (CodecWriteError (codec_id codec) 400 err,
            [NewRequestCalled (codec_id codec), MethodCalled] @ t1, w3)"
  using assms by (simp add: serveWith_def)

lemma serve_before_hook_error:
  assumes "r_Method r = ''POST''"
    and "selectCodec rt s (contentTypeOf r) = Inr (Some codec)"
    and "NewRequest codec r w = (codecReq, w1)"
    and "crMethod codecReq w1 = ((method, None), w2)"
    and "get (srv_services s) method = Inr methodSpec"
    and "beforeFns s = pre @ fn # post"
    and "runFns BeforeCalled r pre (zeroValue rt (srv_ctxType s)) w2 = (Return None, ctx1, w3, t1)"
    and "reflectFuncCall fn r ctx1 w3 = Return (Some err, ctx2, w4)"
  shows "ServeHTTP rt s r w =
           (CodecWriteError (codec_id codec) 400 err,
            [NewRequestCalled (codec_id codec), MethodCalled] @ t1 @ [BeforeCalled (fnId fn) ctx1],
            w4) \<and>
         beforeIds (fst (snd (ServeHTTP rt s r w))) = map fnId (pre @ [fn]) \<and>
         filter (\<lambda>e. \<not> isBefore e) (fst (snd (ServeHTTP rt s r w)))
           = [NewRequestCalled (codec_id codec), MethodCalled]"
proof -
  have run: "runFns BeforeCalled r (beforeFns s) (zeroValue rt (srv_ctxType s)) w2
           = (Return (Some err), ctx2, w4, t1 @ [BeforeCalled (fnId fn) ctx1])"
    unfolding assms(6) using assms(7,8) by (rule runFns_fails_at)
  have eq: "ServeHTTP rt s r w =
           (CodecWriteError (codec_id codec) 400 err,
            [NewRequestCalled (codec_id codec), MethodCalled] @ t1 @ [BeforeCalled (fnId fn) ctx1],
            w4)"
    using assms(1,2) serveWith_before_error[OF assms(3,4,5) run]
    by (simp add: ServeHTTP_def)
  from runFns_before_ok[OF assms(7)]
  have ids: "beforeIds t1 = map fnId pre" and allb: "list_all isBefore t1" by simp_all
  from allb have "filter (\<lambda>e. \<not> isBefore e) t1 = []"
    by (simp add: list_all_iff filter_empty_conv)
  with eq ids show ?thesis by (simp add: beforeIds_append)
qed

subsection \<open>Hook registration\<close>

lemma append1_in_place:
  assumes ok: "sliceOk arrays sl" and room: "sl_len sl < sl_cap sl"
  shows "sliceView (fst (append1 rt arrays sl v)) (snd (append1 rt arrays sl v)) = sliceView arrays sl @ [v]"
    and "sliceOk (fst (append1 rt arrays sl v)) (snd (append1 rt arrays sl v))"
    and "sliceView (fst (append1 rt arrays sl v)) sl = sliceView arrays sl"
    and "sliceOk (fst (append1 rt arrays sl v)) sl"
proof -
  let ?a = "sl_array sl" and ?n = "sl_len sl"
  let ?cells = "arrays ! ?a"
  from ok room have a: "?a < length arrays" and n: "?n \<le> length ?cells"
    by (auto simp: sliceOk_def arrayAt_def)
  let ?new = "take ?n ?cells @ [v] @ drop (Suc ?n) ?cells"
  have ap: "append1 rt arrays sl v = (arrays[?a := ?new], sl\<lparr>sl_len := Suc ?n\<rparr>)"
    using room a by (simp add: append1_def arrayAt_def)
  have at: "arrayAt (arrays[?a := ?new]) ?a = ?new"
    using a by (simp add: arrayAt_def)
  show "sliceView (fst (append1 rt arrays sl v)) (snd (append1 rt arrays sl v)) = sliceView arrays sl @ [v]"
    using n a by (simp add: ap sliceView_def at arrayAt_def)
  show "sliceOk (fst (append1 rt arrays sl v)) (snd (append1 rt arrays sl v))"
    using n a room by (simp add: ap sliceOk_def arrayAt_def)
  show "sliceView (fst (append1 rt arrays sl v)) sl = sliceView arrays sl"
    using n a by (simp add: ap sliceView_def at arrayAt_def)
  show "sliceOk (fst (append1 rt arrays sl v)) sl"
    using n a ok by (simp add: ap sliceOk_def arrayAt_def)
qed

lemma append1_grow:
  assumes ok: "sliceOk arrays sl" and full: "\<not> sl_len sl < sl_cap sl"
  shows "sliceView (fst (append1 rt arrays sl v)) (snd (append1 rt arrays sl v)) = sliceView arrays sl @ [v]"
    and "sliceOk (fst (append1 rt arrays sl v)) (snd (append1 rt arrays sl v))"
    and "sliceView (fst (append1 rt arrays sl v)) sl = sliceView arrays sl"
    and "sliceOk (fst (append1 rt arrays sl v)) sl"
proof -
  let ?a = "sl_array sl" and ?n = "sl_len sl"
  let ?view = "sliceView arrays sl"
  have len: "length ?view = ?n"
    using ok by (simp add: sliceOk_def sliceView_def)
  have ap: "append1 rt arrays sl v =
      (arrays @ [?view @ [v]],
       \<lparr> sl_array = length arrays, sl_len = Suc ?n,
         sl_cap = max (Suc ?n) (growslice rt (sl_cap sl) (Suc ?n)) \<rparr>)"
    using full by (simp add: append1_def)
  have old: "take ?n (arrayAt (arrays @ [?view @ [v]]) ?a) = take ?n (arrayAt arrays ?a)"
  proof (cases "?a < length arrays")
    case True
    then show ?thesis by (simp add: arrayAt_def nth_append)
  next
    case False
    then have "arrayAt arrays ?a = []" by (simp add: arrayAt_def)
    with ok have "?n = 0" by (simp add: sliceOk_def)
    then show ?thesis by simp
  qed
  show "sliceView (fst (append1 rt arrays sl v)) (snd (append1 rt arrays sl v)) = ?view @ [v]"
    using len by (simp add: ap sliceView_def[of "arrays @ _"] arrayAt_def)
  show "sliceOk (fst (append1 rt arrays sl v)) (snd (append1 rt arrays sl v))"
    using len by (simp add: ap sliceOk_def arrayAt_def)
  show "sliceView (fst (append1 rt arrays sl v)) sl = ?view"
    using old by (simp add: ap sliceView_def)
  show "sliceOk (fst (append1 rt arrays sl v)) sl"
  proof -
    have "?n \<le> length (arrayAt (arrays @ [?view @ [v]]) ?a)"
    proof (cases "?a < length arrays")
      case True
      then show ?thesis using ok by (simp add: arrayAt_def nth_append sliceOk_def)
    next
      case False
      then have "arrayAt arrays ?a = []" by (simp add: arrayAt_def)
      with ok have "?n = 0" by (simp add: sliceOk_def)
      then show ?thesis by simp
    qed
    then show ?thesis using ok by (auto simp: ap sliceOk_def)
  qed
qed

lemma append1_view:
  "sliceOk arrays sl \<Longrightarrow>
   sliceView (fst (append1 rt arrays sl v)) (snd (append1 rt arrays sl v)) = sliceView arrays sl @ [v]"
  by (cases "sl_len sl < sl_cap sl") (simp_all add: append1_in_place append1_grow)

lemma append1_ok:
  "sliceOk arrays sl \<Longrightarrow> sliceOk (fst (append1 rt arrays sl v)) (snd (append1 rt arrays sl v))"
  by (cases "sl_len sl < sl_cap sl") (simp_all add: append1_in_place append1_grow)

lemma append1_old_view:
  "sliceOk arrays sl \<Longrightarrow> sliceView (fst (append1 rt arrays sl v)) sl = sliceView arrays sl"
  by (cases "sl_len sl < sl_cap sl") (simp_all add: append1_in_place append1_grow)

lemma append1_old_ok:
  "sliceOk arrays sl \<Longrightarrow> sliceOk (fst (append1 rt arrays sl v)) sl"
  by (cases "sl_len sl < sl_cap sl") (simp_all add: append1_in_place append1_grow)

lemma RegisterBeforeFunc_invalid:
  "validCtxFunc fn (srv_ctxType s) = Some err \<Longrightarrow> RegisterBeforeFunc rt s fn = (Some err, s)"
  by (simp add: RegisterBeforeFunc_def)

lemma RegisterBeforeFunc_valid:
  assumes "validCtxFunc fn (srv_ctxType s) = None" and "hooksOk s"
  shows "fst (RegisterBeforeFunc rt s fn) = None"
    and "beforeFns (snd (RegisterBeforeFunc rt s fn)) = beforeFns s @ [fn]"
    and "hooksOk (snd (RegisterBeforeFunc rt s fn))"
    and "srv_ctxType (snd (RegisterBeforeFunc rt s fn)) = srv_ctxType s"
    and "srv_codecs (snd (RegisterBeforeFunc rt s fn)) = srv_codecs s"
    and "srv_services (snd (RegisterBeforeFunc rt s fn)) = srv_services s"
  using assms append1_view[of "srv_arrays s" "srv_beforeFns s" rt fn]
    append1_ok[of "srv_arrays s" "srv_beforeFns s" rt fn]
  by (simp_all add: RegisterBeforeFunc_def beforeFns_def hooksOk_def case_prod_unfold)

lemma RegisterAfterFunc_valid:
  assumes "validCtxFunc fn (srv_ctxType s) = None" and "hooksOk s"
  shows "fst (RegisterAfterFunc rt s fn) = None"
    and "afterFns (snd (RegisterAfterFunc rt s fn)) = beforeFns s @ [fn]"
    and "beforeFns (snd (RegisterAfterFunc rt s fn)) = beforeFns s"
    and "hooksOk (snd (RegisterAfterFunc rt s fn))"
    and "srv_ctxType (snd (RegisterAfterFunc rt s fn)) = srv_ctxType s"
    and "srv_codecs (snd (RegisterAfterFunc rt s fn)) = srv_codecs s"
    and "srv_services (snd (RegisterAfterFunc rt s fn)) = srv_services s"
  using assms append1_view[of "srv_arrays s" "srv_beforeFns s" rt fn]
    append1_old_view[of "srv_arrays s" "srv_beforeFns s" rt fn]
    append1_old_ok[of "srv_arrays s" "srv_beforeFns s" rt fn]
  by (simp_all add: RegisterAfterFunc_def beforeFns_def afterFns_def hooksOk_def case_prod_unfold)

lemma ex_hooks_valid:
  "validCtxFunc (Some exFetchAuthToken) exContext = None"
  "validCtxFunc (Some exDeny) exContext = None"
  "validCtxFunc (Some exLogger) exContext = None"
  "validCtxFunc (Some exAudit) exContext = None"
  by (simp_all add: validCtxFunc_def exFetchAuthToken_def exDeny_def exLogger_def exAudit_def
        hookType_def NumIn_def NumOut_def In_def Out_def)

lemma ex_one:
  "hooksOk exServerOne" "beforeFns exServerOne = []" "afterFns exServerOne = []"
  "srv_ctxType exServerOne = exContext" "srv_services exServerOne = exRegistry"
  by (simp_all add: exServerOne_def RegisterCodec_def exServer0_def hooksOk_def sliceOk_def
        nilSlice_def arrayAt_def beforeFns_def afterFns_def sliceView_def)

lemma ex_b1:
  "hooksOk exServerB1" "beforeFns exServerB1 = [Some exFetchAuthToken]"
  "srv_ctxType exServerB1 = exContext" "srv_services exServerB1 = exRegistry"
  "srv_codecs exServerB1 = [(''application/json'', Some exJson)]"
  unfolding exServerB1_def
  using RegisterBeforeFunc_valid[of "Some exFetchAuthToken" exServerOne exRuntime]
  by (simp_all add: ex_one ex_hooks_valid ex_codecs)

lemma ex_b2:
  "hooksOk exServerB2" "beforeFns exServerB2 = [Some exFetchAuthToken, Some exDeny]"
  "srv_ctxType exServerB2 = exContext" "srv_services exServerB2 = exRegistry"
  "srv_codecs exServerB2 = [(''application/json'', Some exJson)]"
  unfolding exServerB2_def
  using RegisterBeforeFunc_valid[of "Some exDeny" exServerB1 exRuntime]
  by (simp_all add: ex_b1 ex_hooks_valid)

lemma ex_b3:
  "hooksOk exServerB3"
  "beforeFns exServerB3 = [Some exFetchAuthToken, Some exDeny, Some exLogger]"
  "srv_ctxType exServerB3 = exContext" "srv_services exServerB3 = exRegistry"
  "srv_codecs exServerB3 = [(''application/json'', Some exJson)]"
  unfolding exServerB3_def
  using RegisterBeforeFunc_valid[of "Some exLogger" exServerB2 exRuntime]
  by (simp_all add: ex_b2 ex_hooks_valid)

lemma ex_a1:
  "hooksOk exServerA1" "beforeFns exServerA1 = []" "afterFns exServerA1 = [Some exLogger]"
  "srv_ctxType exServerA1 = exContext"
  unfolding exServerA1_def
  using RegisterAfterFunc_valid[of "Some exLogger" exServerOne exRuntime]
  by (simp_all add: ex_one ex_hooks_valid)

text \<open>
  Claim C1 fails on the code for the after list. \<open>RegisterAfterFunc\<close> appends the hook to
  the before list and stores the result as the after list: on a server with no
  before-hook, registering the after-hook \<open>exLogger\<close> and then \<open>exAudit\<close> leaves the
  after list \<open>[exAudit]\<close>, the first one lost; on a server with the before-hook
  \<open>exFetchAuthToken\<close>, registering the after-hook \<open>exLogger\<close> gives the after list
  \<open>[exFetchAuthToken, exLogger]\<close>.
\<close>

theorem RegisterAfterFunc_appends_to_before_list:
  "fst (RegisterAfterFunc exRuntime exServerOne (Some exLogger)) = None \<and>
   afterFns exServerA1 = [Some exLogger] \<and>
   fst (RegisterAfterFunc exRuntime exServerA1 (Some exAudit)) = None \<and>
   afterFns exServerA2 = [Some exAudit] \<and>
   beforeFns exServerB1 = [Some exFetchAuthToken] \<and>
   fst (RegisterAfterFunc exRuntime exServerB1 (Some exLogger)) = None \<and>
   afterFns exServerB1A = [Some exFetchAuthToken, Some exLogger]"
proof -
  have 1: "fst (RegisterAfterFunc exRuntime exServerOne (Some exLogger)) = None"
    by (rule RegisterAfterFunc_valid) (simp_all add: ex_one ex_hooks_valid)
  have 2: "fst (RegisterAfterFunc exRuntime exServerA1 (Some exAudit)) = None"
    by (rule RegisterAfterFunc_valid) (simp_all add: ex_a1 ex_hooks_valid)
  have "afterFns exServerA2 = beforeFns exServerA1 @ [Some exAudit]"
    unfolding exServerA2_def
    by (rule RegisterAfterFunc_valid) (simp_all add: ex_a1 ex_hooks_valid)
  then have 3: "afterFns exServerA2 = [Some exAudit]"
    by (simp add: ex_a1)
  have 4: "fst (RegisterAfterFunc exRuntime exServerB1 (Some exLogger)) = None"
    by (rule RegisterAfterFunc_valid) (simp_all add: ex_b1 ex_hooks_valid)
  have "afterFns exServerB1A = beforeFns exServerB1 @ [Some exLogger]"
    unfolding exServerB1A_def
    by (rule RegisterAfterFunc_valid) (simp_all add: ex_b1 ex_hooks_valid)
  then have 5: "afterFns exServerB1A = [Some exFetchAuthToken, Some exLogger]"
    by (simp add: ex_b1)
  from 1 2 3 4 5 ex_a1(3) ex_b1(2) show ?thesis by simp
qed

subsection \<open>The instances of a dispatch\<close>


lemma runFns_events_aux:
  "e \<in> set (snd (snd (snd (runFns ev r fns ctx w)))) \<Longrightarrow> \<exists>i c. e = ev i c"
proof (induction fns arbitrary: ctx w)
  case Nil
  then show ?case by simp
next
  case (Cons x xs)
  show ?case
  proof (cases "reflectFuncCall x r ctx w")
    case Panic
    with Cons.prems show ?thesis by simp
  next
    case (Return q)
    obtain err ctx' w' where q: "q = (err, ctx', w')" by (cases q)
    show ?thesis
    proof (cases err)
      case (Some a)
      with Cons.prems Return q have "e = ev (fnId x) ctx" by auto
      then show ?thesis by blast
    next
      case None
      with Cons.prems Return q
      have "e = ev (fnId x) ctx \<or> e \<in> set (snd (snd (snd (runFns ev r xs ctx' w'))))"
        by (auto split: prod.splits)
      then show ?thesis using Cons.IH[of ctx' w'] by blast
    qed
  qed
qed

lemma runFns_events:
  "runFns ev r fns ctx w = (res, ctx1, w1, es) \<Longrightarrow> e \<in> set es \<Longrightarrow> \<exists>i c. e = ev i c"
  using runFns_events_aux[of e ev r fns ctx w] by simp

lemma serveWith_trace_forms:
  assumes "serveWith rt s codec r w = (resp, trace, w')"
  shows "trace = [NewRequestCalled (codec_id codec), MethodCalled] \<or>
    (\<exists>nm spec res ctx1 w2 w3 t1 rest.
       get (srv_services s) nm = Inr spec \<and>
       runFns BeforeCalled r (beforeFns s) (zeroValue rt (srv_ctxType s)) w2 = (res, ctx1, w3, t1) \<and>
       trace = [NewRequestCalled (codec_id codec), MethodCalled] @ t1 @ rest \<and>
       (rest = [] \<or>
        res = Return None \<and>
        (rest = [ReadRequestCalled (zeroValue rt (sm_argsType spec))] \<or>
         (\<exists>args1 ctx2 w5 res3 ctx3 w6 t3.
            runFns AfterCalled r (afterFns s) ctx2 w5 = (res3, ctx3, w6, t3) \<and>
            (rest = [ReadRequestCalled (zeroValue rt (sm_argsType spec)),
                     ServiceCalled (sm_service_name spec) (mName (sm_method spec))
                       (sm_service_rValue spec) ctx1 args1 (zeroValue rt (sm_replyType spec))] \<or>
             rest = [ReadRequestCalled (zeroValue rt (sm_argsType spec)),
                     ServiceCalled (sm_service_name spec) (mName (sm_method spec))
                       (sm_service_rValue spec) ctx1 args1 (zeroValue rt (sm_replyType spec))] @ t3)))))"
proof -
  let ?t0 = "[NewRequestCalled (codec_id codec), MethodCalled]"
  obtain codecReq w1 where nr: "NewRequest codec r w = (codecReq, w1)"
    by (cases "NewRequest codec r w")
  obtain mname errMethod w2 where cm: "crMethod codecReq w1 = ((mname, errMethod), w2)"
    by (cases "crMethod codecReq w1") auto
  show ?thesis
  proof (cases errMethod)
    case (Some e)
    with assms nr cm have "trace = ?t0" by (simp add: serveWith_def)
    then show ?thesis by simp
  next
    case noerr: None
    show ?thesis
    proof (cases "get (srv_services s) mname")
      case (Inl e)
      with assms nr cm noerr have "trace = ?t0" by (simp add: serveWith_def)
      then show ?thesis by simp
    next
      case (Inr spec)
      obtain res ctx1 w3 t1 where
        run: "runFns BeforeCalled r (beforeFns s) (zeroValue rt (srv_ctxType s)) w2 = (res, ctx1, w3, t1)"
        by (cases "runFns BeforeCalled r (beforeFns s) (zeroValue rt (srv_ctxType s)) w2")
      let ?rd = "ReadRequestCalled (zeroValue rt (sm_argsType spec))"
      have goal: ?thesis if "trace = ?t0 @ t1 @ rest" and
        "rest = [] \<or> res = Return None \<and> (rest = [?rd] \<or>
           (\<exists>args1 ctx2 w5 res3 ctx3 w6 t3.
              runFns AfterCalled r (afterFns s) ctx2 w5 = (res3, ctx3, w6, t3) \<and>
              (rest = [?rd, ServiceCalled (sm_service_name spec) (mName (sm_method spec))
                       (sm_service_rValue spec) ctx1 args1 (zeroValue rt (sm_replyType spec))] \<or>
               rest = [?rd, ServiceCalled (sm_service_name spec) (mName (sm_method spec))
                       (sm_service_rValue spec) ctx1 args1 (zeroValue rt (sm_replyType spec))] @ t3)))" for rest
        using Inr run that by blast
      show ?thesis
      proof (cases res)
        case Panic
        with assms nr cm noerr Inr run have "trace = ?t0 @ t1 @ []" by (simp add: serveWith_def)
        then show ?thesis by (rule goal) simp
      next
        case (Return e)
        show ?thesis
        proof (cases e)
          case (Some err)
          with assms nr cm noerr Inr run Return have "trace = ?t0 @ t1 @ []"
            by (simp add: serveWith_def)
          then show ?thesis by (rule goal) simp
        next
          case ok: None
          obtain errRead args1 w4 where
            rd: "crReadRequest codecReq (zeroValue rt (sm_argsType spec)) w3 = (errRead, args1, w4)"
            by (cases "crReadRequest codecReq (zeroValue rt (sm_argsType spec)) w3")
          show ?thesis
          proof (cases errRead)
            case (Some err)
            with assms nr cm noerr Inr run Return ok rd have "trace = ?t0 @ t1 @ [?rd]"
              by (simp add: serveWith_def)
            then show ?thesis by (rule goal) (simp add: Return ok)
          next
            case readok: None
            let ?sv = "ServiceCalled (sm_service_name spec) (mName (sm_method spec))
                       (sm_service_rValue spec) ctx1 args1 (zeroValue rt (sm_replyType spec))"
            obtain err ctx2 reply1 w5 where
              call: "mFunc (sm_method spec) (sm_service_rValue spec) ctx1 args1
                       (zeroValue rt (sm_replyType spec)) w4 = (err, ctx2, reply1, w5)"
              by (cases "mFunc (sm_method spec) (sm_service_rValue spec) ctx1 args1
                       (zeroValue rt (sm_replyType spec)) w4")
            obtain res3 ctx3 w6 t3 where
              after: "runFns AfterCalled r (afterFns s) ctx2 w5 = (res3, ctx3, w6, t3)"
              by (cases "runFns AfterCalled r (afterFns s) ctx2 w5")
            show ?thesis
            proof (cases err)
              case (Some a)
              with assms nr cm noerr Inr run Return ok rd readok call
              have "trace = ?t0 @ t1 @ [?rd, ?sv]"
                by (simp add: serveWith_def)
              then show ?thesis by (rule goal) (use after Return ok in blast)
            next
              case None
              with assms nr cm noerr Inr run Return ok rd readok call after
              have "trace = ?t0 @ t1 @ ([?rd, ?sv] @ t3)"
                by (cases res3) (auto simp: serveWith_def Let_def split: option.splits)
              then show ?thesis by (rule goal) (use after Return ok in blast)
            qed
          qed
        qed
      qed
    qed
  qed
qed

lemma ServeHTTP_cases:
  assumes "ServeHTTP rt s r w = (resp, trace, w')"
  shows "trace = [] \<or> (\<exists>codec. serveWith rt s codec r w = (resp, trace, w'))"
  using assms
  by (auto simp: ServeHTTP_def split: if_splits sum.splits option.splits)

lemma ctxs_of_codec_calls:
  "List.map_filter ctxSeen ([NewRequestCalled i, MethodCalled] @ t) = List.map_filter ctxSeen t"
  by (simp add: List.map_filter_def)





lemma NewServer_hooks:
  "NewServer ctx = Inr s \<Longrightarrow> hooksOk s \<and> beforeFns s = [] \<and> afterFns s = []"
  by (auto simp: NewServer_def hooksOk_def sliceOk_def nilSlice_def arrayAt_def beforeFns_def
        afterFns_def sliceView_def split: option.splits if_splits)

text \<open>
  The after list shares the array of the before list: once the before list has spare
  capacity, the hook \<open>RegisterAfterFunc\<close> wrote after it is overwritten by the next
  \<open>RegisterBeforeFunc\<close>.
\<close>

lemma ex_b3_store:
  "srv_arrays exServerB3 =
     [[Some exFetchAuthToken], [Some exFetchAuthToken, Some exDeny],
      [Some exFetchAuthToken, Some exDeny, Some exLogger]]"
  "srv_beforeFns exServerB3 = \<lparr> sl_array = 2, sl_len = 3, sl_cap = 4 \<rparr>"
  by (simp_all add: exServerB3_def exServerB2_def exServerB1_def exServerOne_def exServer0_def
        RegisterBeforeFunc_def RegisterCodec_def ex_hooks_valid append1_def nilSlice_def
        sliceView_def arrayAt_def exRuntime_def)

lemma ex_alias:
  "afterFns exServerB3A = [Some exFetchAuthToken, Some exDeny, Some exLogger, Some exAudit]"
  "afterFns exServerB3AB = [Some exFetchAuthToken, Some exDeny, Some exLogger, Some exLogger]"
  by (simp_all add: exServerB3AB_def exServerB3A_def RegisterAfterFunc_def RegisterBeforeFunc_def
        ex_b3 ex_b3_store ex_hooks_valid append1_def afterFns_def sliceView_def arrayAt_def)


subsection \<open>Before-hooks: order and abort\<close>

lemma runFns_before_prefix:
  "\<exists>n. beforeIds (snd (snd (snd (runFns BeforeCalled r fns ctx w)))) = map fnId (take n fns)"
proof (induction fns arbitrary: ctx w)
  case Nil
  then show ?case by simp
next
  case (Cons x xs)
  show ?case
  proof (cases "reflectFuncCall x r ctx w")
    case Panic
    then have "beforeIds (snd (snd (snd (runFns BeforeCalled r (x # xs) ctx w)))) = map fnId (take 0 (x # xs))"
      by simp
    then show ?thesis by (rule exI)
  next
    case (Return q)
    obtain err ctx' w' where q: "q = (err, ctx', w')" by (cases q)
    show ?thesis
    proof (cases err)
      case (Some a)
      with Return q
      have "beforeIds (snd (snd (snd (runFns BeforeCalled r (x # xs) ctx w)))) = map fnId (take 1 (x # xs))"
        by simp
      then show ?thesis by (rule exI)
    next
      case None
      from Cons.IH[of ctx' w'] obtain n where
        n: "beforeIds (snd (snd (snd (runFns BeforeCalled r xs ctx' w')))) = map fnId (take n xs)" ..
      with Return q None
      have "beforeIds (snd (snd (snd (runFns BeforeCalled r (x # xs) ctx w)))) = map fnId (take (Suc n) (x # xs))"
        by (simp add: case_prod_unfold)
      then show ?thesis by (rule exI)
    qed
  qed
qed

lemma beforeIds_after: "\<forall>e \<in> set t. \<exists>i c. e = AfterCalled i c \<Longrightarrow> beforeIds t = []"
  by (induction t) auto

lemma serveWith_before_ids:
  assumes "serveWith rt s codec r w = (resp, trace, w')"
  shows "\<exists>n. beforeIds trace = map fnId (take n (beforeFns s))"
proof -
  from serveWith_trace_forms[OF assms] show ?thesis
  proof
    assume "trace = [NewRequestCalled (codec_id codec), MethodCalled]"
    then have "beforeIds trace = map fnId (take 0 (beforeFns s))" by simp
    then show ?thesis by (rule exI)
  next
    assume "\<exists>nm spec res ctx1 w2 w3 t1 rest.
       get (srv_services s) nm = Inr spec \<and>
       runFns BeforeCalled r (beforeFns s) (zeroValue rt (srv_ctxType s)) w2 = (res, ctx1, w3, t1) \<and>
       trace = [NewRequestCalled (codec_id codec), MethodCalled] @ t1 @ rest \<and>
       (rest = [] \<or>
        res = Return None \<and>
        (rest = [ReadRequestCalled (zeroValue rt (sm_argsType spec))] \<or>
         (\<exists>args1 ctx2 w5 res3 ctx3 w6 t3.
            runFns AfterCalled r (afterFns s) ctx2 w5 = (res3, ctx3, w6, t3) \<and>
            (rest = [ReadRequestCalled (zeroValue rt (sm_argsType spec)),
                     ServiceCalled (sm_service_name spec) (mName (sm_method spec))
                       (sm_service_rValue spec) ctx1 args1 (zeroValue rt (sm_replyType spec))] \<or>
             rest = [ReadRequestCalled (zeroValue rt (sm_argsType spec)),
                     ServiceCalled (sm_service_name spec) (mName (sm_method spec))
                       (sm_service_rValue spec) ctx1 args1 (zeroValue rt (sm_replyType spec))] @ t3))))"
    then obtain nm spec res ctx1 w2 w3 t1 rest where
      g: "get (srv_services s) nm = Inr spec"
      and run: "runFns BeforeCalled r (beforeFns s) (zeroValue rt (srv_ctxType s)) w2 = (res, ctx1, w3, t1)"
      and tr: "trace = [NewRequestCalled (codec_id codec), MethodCalled] @ t1 @ rest"
      and rest: "rest = [] \<or>
        res = Return None \<and>
        (rest = [ReadRequestCalled (zeroValue rt (sm_argsType spec))] \<or>
         (\<exists>args1 ctx2 w5 res3 ctx3 w6 t3.
            runFns AfterCalled r (afterFns s) ctx2 w5 = (res3, ctx3, w6, t3) \<and>
            (rest = [ReadRequestCalled (zeroValue rt (sm_argsType spec)),
                     ServiceCalled (sm_service_name spec) (mName (sm_method spec))
                       (sm_service_rValue spec) ctx1 args1 (zeroValue rt (sm_replyType spec))] \<or>
             rest = [ReadRequestCalled (zeroValue rt (sm_argsType spec)),
                     ServiceCalled (sm_service_name spec) (mName (sm_method spec))
                       (sm_service_rValue spec) ctx1 args1 (zeroValue rt (sm_replyType spec))] @ t3)))"
      by blast
    let ?rd = "ReadRequestCalled (zeroValue rt (sm_argsType spec))"
    from rest consider "rest = []" | "rest = [?rd]"
      | args1 ctx2 w5 res3 ctx3 w6 t3 where "res = Return None"
          "runFns AfterCalled r (afterFns s) ctx2 w5 = (res3, ctx3, w6, t3)"
          "rest = [?rd, ServiceCalled (sm_service_name spec) (mName (sm_method spec))
                       (sm_service_rValue spec) ctx1 args1 (zeroValue rt (sm_replyType spec))] \<or>
           rest = [?rd, ServiceCalled (sm_service_name spec) (mName (sm_method spec))
                       (sm_service_rValue spec) ctx1 args1 (zeroValue rt (sm_replyType spec))] @ t3"
      by blast
    then have r0: "beforeIds rest = []"
    proof cases
      case 1
      then show ?thesis by simp
    next
      case 2
      then show ?thesis by simp
    next
      case 3
      have "\<forall>e \<in> set t3. \<exists>i c. e = AfterCalled i c"
        using runFns_events[OF 3(2)] by blast
      then have "beforeIds t3 = []" by (rule beforeIds_after)
      with 3(3) show ?thesis by (elim disjE) simp_all
    qed
    from runFns_before_prefix[of r "beforeFns s" "zeroValue rt (srv_ctxType s)" w2]
    have "\<exists>n. beforeIds t1 = map fnId (take n (beforeFns s))"
      by (simp add: run)
    then obtain n where "beforeIds t1 = map fnId (take n (beforeFns s))" ..
    with r0 have "beforeIds trace = map fnId (take n (beforeFns s))"
      unfolding tr by (simp add: beforeIds_append)
    then show ?thesis by (rule exI)
  qed
qed

lemma ServeHTTP_before_prefix:
  "\<exists>n. beforeIds (fst (snd (ServeHTTP rt s r w))) = map fnId (take n (beforeFns s))"
proof -
  obtain resp trace w' where sv: "ServeHTTP rt s r w = (resp, trace, w')"
    by (cases "ServeHTTP rt s r w")
  from ServeHTTP_cases[OF sv] have "\<exists>n. beforeIds trace = map fnId (take n (beforeFns s))"
  proof
    assume "trace = []"
    then have "beforeIds trace = map fnId (take 0 (beforeFns s))" by simp
    then show ?thesis by (rule exI)
  next
    assume "\<exists>codec. serveWith rt s codec r w = (resp, trace, w')"
    then obtain codec where "serveWith rt s codec r w = (resp, trace, w')" ..
    then show ?thesis by (rule serveWith_before_ids)
  qed
  with sv show ?thesis by simp
qed

text \<open>
  Claim C3. In every dispatch the before-hooks called are an initial segment of the list
  of before-hooks, in the order of the list, each with the context as the previous one
  left it. When the hooks \<open>pre\<close> have returned nil and the next hook \<open>fn\<close> returns an
  error, the dispatch ends there: the adapter writes a 400 error with that error, the
  hooks called are those of \<open>pre\<close> and then \<open>fn\<close>, and apart from them only the two calls
  that obtained the method name were made: no later before-hook, no decoding of
  arguments, no service method and no after-hook.
\<close>

theorem before_hook_error_aborts_dispatch:
  "(\<exists>n. beforeIds (fst (snd (ServeHTTP rt s r w))) = map fnId (take n (beforeFns s))) \<and>
   (r_Method r = ''POST'' \<and>
    selectCodec rt s (contentTypeOf r) = Inr (Some codec) \<and>
    NewRequest codec r w = (codecReq, w1) \<and>
    crMethod codecReq w1 = ((mname, None), w2) \<and>
    get (srv_services s) mname = Inr methodSpec \<and>
    beforeFns s = pre @ fn # post \<and>
    runFns BeforeCalled r pre (zeroValue rt (srv_ctxType s)) w2 = (Return None, ctx1, w3, t1) \<and>
    reflectFuncCall fn r ctx1 w3 = Return (Some err, ctx2, w4)
    \<longrightarrow>
    ServeHTTP rt s r w =
      (CodecWriteError (codec_id codec) 400 err,
       [NewRequestCalled (codec_id codec), MethodCalled] @ t1 @ [BeforeCalled (fnId fn) ctx1],
       w4) \<and>
    beforeIds (fst (snd (ServeHTTP rt s r w))) = map fnId (pre @ [fn]) \<and>
    filter (\<lambda>e. \<not> isBefore e) (fst (snd (ServeHTTP rt s r w)))
      = [NewRequestCalled (codec_id codec), MethodCalled])"
  using ServeHTTP_before_prefix[of rt s r w] serve_before_hook_error[of r rt s codec w codecReq w1 mname w2 methodSpec pre fn post ctx1 w3 t1 err ctx2 w4]
  by blast

text \<open>
  Three before-hooks registered in this order: one that fills the context, one that
  refuses, one that logs. The refusal is written with status 400 and the logger is
  never called.
\<close>

theorem before_hook_error_aborts_dispatch_witness:
  "r_Method exPost = ''POST'' \<and>
   selectCodec exRuntime exServerB3 (contentTypeOf exPost) = Inr (Some exJson) \<and>
   NewRequest exJson exPost () = (exAdapter, ()) \<and>
   crMethod exAdapter () = ((''TestService.Hello'', None), ()) \<and>
   get (srv_services exServerB3) ''TestService.Hello'' = Inr (descriptor ''TestService'' 0 exHello) \<and>
   beforeFns exServerB3 = [Some exFetchAuthToken] @ Some exDeny # [Some exLogger] \<and>
   runFns BeforeCalled exPost [Some exFetchAuthToken] (zeroValue exRuntime (srv_ctxType exServerB3)) ()
     = (Return None, 5, (), [BeforeCalled 1 0]) \<and>
   reflectFuncCall (Some exDeny) exPost 5 () = Return (Some (ErrOther ''denied''), 5, ()) \<and>
   ServeHTTP exRuntime exServerB3 exPost () =
     (CodecWriteError 1 400 (ErrOther ''denied''),
      [NewRequestCalled 1, MethodCalled, BeforeCalled 1 0, BeforeCalled 2 5], ())"
proof -
  have h2: "selectCodec exRuntime exServerB3 (contentTypeOf exPost) = Inr (Some exJson)"
    by (simp add: ex_post selectCodec_single[OF ex_b3(5)])
  have h3: "NewRequest exJson exPost () = (exAdapter, ())"
    by (simp add: exJson_def)
  have h4: "crMethod exAdapter () = ((''TestService.Hello'', None), ())"
    by (simp add: exAdapter_def)
  have h5: "get (srv_services exServerB3) ''TestService.Hello'' = Inr (descriptor ''TestService'' 0 exHello)"
    by (simp add: ex_b3 ex_get)
  have h6: "beforeFns exServerB3 = [Some exFetchAuthToken] @ Some exDeny # [Some exLogger]"
    by (simp add: ex_b3)
  have h7: "runFns BeforeCalled exPost [Some exFetchAuthToken] (zeroValue exRuntime (srv_ctxType exServerB3)) ()
     = (Return None, 5, (), [BeforeCalled 1 0])"
    by (simp add: reflectFuncCall_def exFetchAuthToken_def fnId_def exRuntime_def)
  have h8: "reflectFuncCall (Some exDeny) exPost 5 () = Return (Some (ErrOther ''denied''), 5, ())"
    by (simp add: reflectFuncCall_def exDeny_def)
  from before_hook_error_aborts_dispatch[of exRuntime exServerB3 exPost "()" exJson exAdapter "()"
      "''TestService.Hello''" "()" "descriptor ''TestService'' 0 exHello"
      "[Some exFetchAuthToken]" "Some exDeny" "[Some exLogger]" 5 "()" "[BeforeCalled 1 0]"
      "ErrOther ''denied''" 5 "()"]
    ex_post(1) h2 h3 h4 h5 h6 h7 h8
  have "ServeHTTP exRuntime exServerB3 exPost () =
     (CodecWriteError (codec_id exJson) 400 (ErrOther ''denied''),
      [NewRequestCalled (codec_id exJson), MethodCalled] @ [BeforeCalled 1 0] @
        [BeforeCalled (fnId (Some exDeny)) 5], ())"
    by blast
  then have "ServeHTTP exRuntime exServerB3 exPost () =
     (CodecWriteError 1 400 (ErrOther ''denied''),
      [NewRequestCalled 1, MethodCalled, BeforeCalled 1 0, BeforeCalled 2 5], ())"
    by (simp add: exJson_def fnId_def exDeny_def)
  with ex_post(1) h2 h3 h4 h5 h6 h7 h8 show ?thesis by blast
qed

subsection \<open>Sequences of dispatches\<close>




end
